theory Spec2Isabelle
  imports Main "HOL-Library.AList" "HOL-Library.Multiset"
begin

chapter \<open>The program\<close>

section \<open>The vocabulary\<close>

text \<open>
  \<^verbatim>\<open>TOKENS\<close> of \<^verbatim>\<open>src/index.js\<close>: the object literal, as the list of its entries in
  the order they are written. Property reads \<^verbatim>\<open>T.NAME\<close> (\<^verbatim>\<open>const T = TOKENS\<close>) look a
  name up and give \<^verbatim>\<open>undefined\<close> (here \<open>None\<close>) for a name that is not there.
\<close>

definition TOKENS :: "(string \<times> int) list" where
  "TOKENS =
    [(''FOR_BEGIN'', 2), (''FOR_END'', 3), (''FUNCTION_BEGIN'', 4), (''FUNCTION_END'', 5),
     (''BREAK'', 6), (''APPLY'', 7), (''IF_BEGIN'', 8), (''IF_END'', 9), (''ELSE'', 10),
     (''CONTINUE'', 11), (''CLASS_BEGIN'', 12), (''CLASS_END'', 13),
     (''IN_CLASS_BEGIN'', 14), (''IN_CLASS_END'', 15), (''WITH_BEGIN'', 16),
     (''WITH_END'', 17), (''SWITCH_BEGIN'', 18), (''SWITCH_END'', 19), (''CASE'', 20),
     (''RETURN'', 21), (''THROW'', 22), (''TRY'', 23), (''CATCH_BEGIN'', 24),
     (''CATCH_END'', 25), (''WHILE_BEGIN'', 26), (''WHILE_END'', 27),
     (''DO_WHILE_BEGIN'', 28), (''DO_WHILE_END'', 29), (''ASSIGN'', 30),
     (''ARRAY_BEGIN'', 31), (''ARRAY_END'', 32), (''OBJECT_BEGIN'', 33),
     (''OBJECT_END'', 34), (''TERNARY'', 35), (''YIELD'', 36), (''GEN_EXPR_BEGIN'', 37),
     (''GEN_EXPR_END'', 38), (''ARRAY_COMP_BEGIN'', 39), (''ARRAY_COMP_END'', 40),
     (''IMPORT'', 41), (''AWAIT'', 42), (''DECORATOR'', 43), (''EXPORT'', 44)]"

text \<open>
  \<^verbatim>\<open>TOKENS_REVERSE\<close>: the \<^verbatim>\<open>reduce\<close> over \<^verbatim>\<open>Object.entries(TOKENS)\<close> that stores
  \<^verbatim>\<open>accum[value] = key\<close>, starting from the empty object. A later entry with the same
  value overwrites the earlier one, as \<open>AList.update\<close> does.
\<close>

definition TOKENS_REVERSE :: "(int \<times> string) list" where
  "TOKENS_REVERSE = fold (\<lambda>(key, v) accum. AList.update v key accum) TOKENS []"

definition T :: "string \<Rightarrow> int option" where
  "T name = map_of TOKENS name"

text \<open>\<^verbatim>\<open>Object.keys(o).length\<close> for the two objects above.\<close>

definition keys_length :: "('a \<times> 'b) list \<Rightarrow> int" where
  "keys_length obj = int (length (remdups (map fst obj)))"

text \<open>The module-level \<^verbatim>\<open>assert\<close> of line 71, as the condition it checks.\<close>

definition module_assert :: bool where
  "module_assert = (keys_length TOKENS = keys_length TOKENS_REVERSE)"

section \<open>Syntax trees, as the parsers hand them over\<close>

text \<open>
  The trees are acorn's ESTree objects. They are kept as the dynamically typed values
  the code reads: a node is an object with its \<^verbatim>\<open>type\<close> string, its \<^verbatim>\<open>loc\<close> and
  \<^verbatim>\<open>range\<close> (both present when the parser ran with \<^verbatim>\<open>locations\<close> and \<^verbatim>\<open>ranges\<close>, as
  \<^verbatim>\<open>parseToAst\<close> asks for; absent is \<open>None\<close>), and its remaining fields by name. The
  fields are listed in the order in which ast-types walks the children of a node of that
  type. Numbers are kept as integers: the code only reads positions, offsets and whether
  a literal's value is zero.
\<close>

datatype position = Position (pos_line: int) (pos_column: int)

datatype sourceLocation = SourceLocation (loc_start: position) (loc_end: position)

datatype jsval =
    VUndefined
  | VNull
  | VBool bool
  | VNum int
  | VStr string
  | VRegExp
  | VObj node
  | VArr "jsval list"
and node =
    Node (ntype: string) (nloc: "sourceLocation option") (nrange: "(int \<times> int) option")
         (nfields: "(string \<times> jsval) list")

datatype error = AssertionError | TypeError | SyntaxError string | IOError string

text \<open>JavaScript's truthiness, and \<^verbatim>\<open>x == null\<close>.\<close>

fun truthy :: "jsval \<Rightarrow> bool" where
  "truthy VUndefined = False"
| "truthy VNull = False"
| "truthy (VBool b) = b"
| "truthy (VNum n) = (n \<noteq> 0)"
| "truthy (VStr s) = (s \<noteq> [])"
| "truthy VRegExp = True"
| "truthy (VObj n) = True"
| "truthy (VArr xs) = True"

fun nullish :: "jsval \<Rightarrow> bool" where
  "nullish VUndefined = True"
| "nullish VNull = True"
| "nullish v = False"

text \<open>
  Reading a property of a node (\<^verbatim>\<open>node.name\<close>): a field that is not there reads as
  \<^verbatim>\<open>undefined\<close>. \<open>member\<close> is the same read on any value: it throws on \<^verbatim>\<open>null\<close> and
  \<^verbatim>\<open>undefined\<close>; on a string, number, boolean, regular expression or array the names the
  code reads (\<^verbatim>\<open>type\<close>, \<^verbatim>\<open>property\<close>, \<^verbatim>\<open>value\<close>) are not defined.
\<close>

definition get :: "node \<Rightarrow> string \<Rightarrow> jsval" where
  "get n name =
     (if name = ''type'' then VStr (ntype n)
      else case map_of (nfields n) name of Some v \<Rightarrow> v | None \<Rightarrow> VUndefined)"

definition member :: "jsval \<Rightarrow> string \<Rightarrow> error + jsval" where
  "member v name =
     (case v of
        VUndefined \<Rightarrow> Inl TypeError
      | VNull \<Rightarrow> Inl TypeError
      | VObj n \<Rightarrow> Inr (get n name)
      | _ \<Rightarrow> Inr VUndefined)"

text \<open>\<^verbatim>\<open>getLength(node)\<close>: \<^verbatim>\<open>node.range[1] - node.range[0]\<close>.\<close>

definition getLength :: "jsval \<Rightarrow> error + int" where
  "getLength v =
     (case v of
        VObj n \<Rightarrow> (case nrange n of Some (a, b) \<Rightarrow> Inr (b - a) | None \<Rightarrow> Inl TypeError)
      | _ \<Rightarrow> Inl TypeError)"

text \<open>
  \<^verbatim>\<open>s.length\<close> of an operator string. The parsers always store a string there; on
  \<^verbatim>\<open>null\<close> and \<^verbatim>\<open>undefined\<close> the read throws, and on another value the length is
  \<^verbatim>\<open>undefined\<close>, which fails \<^verbatim>\<open>assert(length > 0)\<close> in \<^verbatim>\<open>emit\<close>.
\<close>

definition operator_length :: "jsval \<Rightarrow> error + int" where
  "operator_length v =
     (case v of
        VStr s \<Rightarrow> Inr (int (length s))
      | VArr xs \<Rightarrow> Inr (int (length xs))
      | VUndefined \<Rightarrow> Inl TypeError
      | VNull \<Rightarrow> Inl TypeError
      | _ \<Rightarrow> Inl AssertionError)"

text \<open>
  An ast-types \<^verbatim>\<open>NodePath\<close>, reduced to what the code reads of it: its \<^verbatim>\<open>value\<close> and
  \<^verbatim>\<open>get(name)\<close>, the path of a child.
\<close>

datatype path = NodePath (pvalue: jsval)

definition pget :: "path \<Rightarrow> string \<Rightarrow> path" where
  "pget p name =
     NodePath (case pvalue p of VObj n \<Rightarrow> get n name | _ \<Rightarrow> VUndefined)"

section \<open>Tokens and the two emitting functions\<close>

text \<open>
  One element of \<^verbatim>\<open>res\<close>: \<^verbatim>\<open>{token: {key, value}, line, column, length}\<close>. \<open>key\<close> is
  \<open>None\<close> where \<^verbatim>\<open>TOKENS_REVERSE[tok]\<close> is \<^verbatim>\<open>undefined\<close>.
\<close>

record token =
  key :: "string option"
  value_t :: int
  line :: int
  column :: int
  length_t :: int

text \<open>
  The state a visitor method runs in: \<^verbatim>\<open>res\<close>, the array of \<^verbatim>\<open>ASTToTokens\<close>, and
  \<^verbatim>\<open>traversed\<close>, the flag of the wrapper that \<^verbatim>\<open>makeTraverser\<close> puts around the method.
\<close>

record state =
  res :: "token list"
  traversed :: bool

text \<open>
  What a call hands to \<^verbatim>\<open>emit\<close> or \<^verbatim>\<open>emitEnd\<close> as \<^verbatim>\<open>node\<close>: a path, or a value read
  from the tree.
\<close>

datatype arg = APath path | ANode jsval

text \<open>
  \<^verbatim>\<open>node.value || node\<close>: for a path this is the node the path holds; for a node it is
  the node's own \<^verbatim>\<open>value\<close> field when that is truthy (a literal's value, a property's
  value node).
\<close>

definition value_or :: "arg \<Rightarrow> error + arg" where
  "value_or a =
     (case a of
        APath p \<Rightarrow> Inr (if truthy (pvalue p) then ANode (pvalue p) else a)
      | ANode v \<Rightarrow>
          (case member v ''value'' of
             Inl e \<Rightarrow> Inl e
           | Inr x \<Rightarrow> Inr (if truthy x then ANode x else a)))"

text \<open>\<^verbatim>\<open>node.loc\<close>: only a node object carries one.\<close>

definition loc_of :: "arg \<Rightarrow> sourceLocation option" where
  "loc_of a = (case a of ANode (VObj n) \<Rightarrow> nloc n | _ \<Rightarrow> None)"

definition arg_nullish :: "arg \<Rightarrow> bool" where
  "arg_nullish a = (case a of APath p \<Rightarrow> False | ANode v \<Rightarrow> nullish v)"

definition emit :: "int option \<Rightarrow> arg \<Rightarrow> int \<Rightarrow> state \<Rightarrow> error + state" where
  "emit tok node len s =
     (case tok of
        None \<Rightarrow> Inl AssertionError
      | Some tk \<Rightarrow>
          if arg_nullish node then Inl AssertionError
          else if \<not> 0 < len then Inl AssertionError
          else
            (case value_or node of
               Inl e \<Rightarrow> Inl e
             | Inr nd \<Rightarrow>
                 (case loc_of nd of
                    None \<Rightarrow> Inl TypeError
                  | Some l \<Rightarrow>
                      Inr (s\<lparr>res := res s @
                        [\<lparr>key = map_of TOKENS_REVERSE tk, value_t = tk,
                          line = pos_line (loc_start l),
                          column = pos_column (loc_start l),
                          length_t = len\<rparr>]\<rparr>))))"

text \<open>\<^verbatim>\<open>tokKey.endsWith('END')\<close>.\<close>

definition endsWith :: "string \<Rightarrow> string \<Rightarrow> bool" where
  "endsWith s suffix =
     (length suffix \<le> length s \<and> drop (length s - length suffix) s = suffix)"

text \<open>
  \<^verbatim>\<open>emitEnd(tok, node)\<close> declares two parameters. \<^verbatim>\<open>visitForStatement\<close> calls it with
  a third argument; \<open>surplus\<close> holds the arguments of a call past the second, which the
  function never reads.
\<close>

definition emitEnd :: "int option \<Rightarrow> arg \<Rightarrow> int list \<Rightarrow> state \<Rightarrow> error + state" where
  "emitEnd tok node surplus s =
     (case tok of
        None \<Rightarrow> Inl AssertionError
      | Some tk \<Rightarrow>
          (case value_or node of
             Inl e \<Rightarrow> Inl e
           | Inr nd \<Rightarrow>
               if arg_nullish nd then Inl AssertionError
               else
                 (case map_of TOKENS_REVERSE tk of
                    None \<Rightarrow> Inl TypeError
                  | Some tokKey \<Rightarrow>
                      if \<not> endsWith tokKey ''END'' then Inl AssertionError
                      else
                        (case loc_of nd of
                           None \<Rightarrow> Inl TypeError
                         | Some l \<Rightarrow>
                             Inr (s\<lparr>res := res s @
                               [\<lparr>key = Some tokKey, value_t = tk,
                                 line = pos_line (loc_end l),
                                 column = max (pos_column (loc_end l) - 1) 0,
                                 length_t = 1\<rparr>]\<rparr>)))))"

section \<open>The visitor methods\<close>

text \<open>
  A statement of a method body changes the state or throws. \<open>block\<close> runs statements
  in order and stops at the first that throws; \<open>bind_arg\<close> evaluates an expression that
  may throw before the statement that uses its value; \<open>js_if\<close> is an \<^verbatim>\<open>if\<close> without
  \<^verbatim>\<open>else\<close>; \<open>returning\<close> ends a body with the value it returns (\<^verbatim>\<open>undefined\<close> when the
  body has no \<^verbatim>\<open>return\<close>).
\<close>

type_synonym stmt = "state \<Rightarrow> error + state"

type_synonym walker = "path \<Rightarrow> token list \<Rightarrow> error + token list"

fun block :: "stmt list \<Rightarrow> stmt" where
  "block [] s = Inr s"
| "block (c # cs) s = (case c s of Inl e \<Rightarrow> Inl e | Inr s' \<Rightarrow> block cs s')"

definition bind_arg :: "error + 'a \<Rightarrow> ('a \<Rightarrow> stmt) \<Rightarrow> stmt" where
  "bind_arg e f s = (case e of Inl err \<Rightarrow> Inl err | Inr x \<Rightarrow> f x s)"

definition js_if :: "bool \<Rightarrow> stmt \<Rightarrow> stmt" where
  "js_if b c s = (if b then c s else Inr s)"

definition returning :: "jsval \<Rightarrow> stmt \<Rightarrow> state \<Rightarrow> error + (jsval \<times> state)" where
  "returning v c s = (case c s of Inl e \<Rightarrow> Inl e | Inr s' \<Rightarrow> Inr (v, s'))"

text \<open>
  A method of the object literal handed to \<^verbatim>\<open>makeTraverser\<close>. Its arguments: the two
  methods of \<^verbatim>\<open>this\<close> (the ast-types context) that the code calls, \<^verbatim>\<open>this.traverse\<close> and
  \<^verbatim>\<open>this.visit\<close>; the path; and the two callbacks the wrapper passes, named as the
  methods name them.
\<close>

type_synonym vmethod =
  "walker \<Rightarrow> walker \<Rightarrow> path \<Rightarrow> (path \<Rightarrow> stmt) \<Rightarrow> (path \<Rightarrow> stmt) \<Rightarrow> state \<Rightarrow> error + (jsval \<times> state)"

definition visitForStatement :: vmethod where
  "visitForStatement this_traverse this_visit path traverse visit =
     returning VUndefined (block
       [emit (T ''FOR_BEGIN'') (APath path) (int (length ''for'')),
        traverse path,
        emitEnd (T ''FOR_END'') (APath path) [int (length (''''::string))]])"

definition visitFunction :: vmethod where
  "visitFunction this_traverse this_visit path traverse visit =
     returning VUndefined (block
       [emit (T ''FUNCTION_BEGIN'') (APath path) (int (length ''function'')),
        traverse path,
        emitEnd (T ''FUNCTION_END'') (APath path) []])"

definition visitBreakStatement :: vmethod where
  "visitBreakStatement this_traverse this_visit path traverse visit =
     (let node = pvalue path in
      returning VUndefined (block
        [bind_arg (getLength node) (\<lambda>len. emit (T ''BREAK'') (ANode node) len)]))"

definition visitContinueStatement :: vmethod where
  "visitContinueStatement this_traverse this_visit path traverse visit =
     (let node = pvalue path in
      returning VUndefined (block
        [bind_arg (getLength node) (\<lambda>len. emit (T ''CONTINUE'') (ANode node) len)]))"

text \<open>
  The fourth argument of the call to \<^verbatim>\<open>emit\<close> in \<^verbatim>\<open>visitCallExpression\<close>,
  \<^verbatim>\<open>node + 1\<close>, is a string concatenation whose value \<^verbatim>\<open>emit\<close> never reads.
\<close>

definition visitCallExpression :: vmethod where
  "visitCallExpression this_traverse this_visit path traverse visit =
     (let node = pvalue path in
      returning VUndefined (block
        [bind_arg (member node ''callee'') (\<lambda>callee.
         bind_arg (member callee ''type'') (\<lambda>callee_type.
           if callee_type = VStr ''MemberExpression'' then
             bind_arg (member callee ''property'') (\<lambda>node.
             bind_arg (getLength node) (\<lambda>len.
               emit (T ''APPLY'') (ANode node) len))
           else
             bind_arg (getLength callee) (\<lambda>len.
               emit (T ''APPLY'') (ANode node) len)))]))"

definition visitIfStatement :: vmethod where
  "visitIfStatement this_traverse this_visit path traverse visit =
     (let node = pvalue path in
      returning VUndefined (block
        [emit (T ''IF_BEGIN'') (ANode node) (int (length ''if'')),
         visit (pget path ''test''),
         visit (pget path ''consequent''),
         bind_arg (member node ''alternate'') (\<lambda>alternate.
           js_if (truthy alternate) (block
             [emit (T ''ELSE'') (ANode alternate) 1,
              visit (pget path ''alternate'')])),
         emitEnd (T ''IF_END'') (ANode node) []]))"

definition visitClassDeclaration :: vmethod where
  "visitClassDeclaration this_traverse this_visit path traverse visit =
     returning VUndefined (block
       [emit (T ''CLASS_BEGIN'') (APath path) (int (length ''class'')),
        traverse path,
        emitEnd (T ''CLASS_END'') (APath path) []])"

definition visitClassExpression :: vmethod where
  "visitClassExpression this_traverse this_visit path traverse visit =
     returning VUndefined (block
       [emit (T ''IN_CLASS_BEGIN'') (APath path) (int (length ''class'')),
        traverse path,
        emitEnd (T ''IN_CLASS_END'') (APath path) []])"

definition visitWithStatement :: vmethod where
  "visitWithStatement this_traverse this_visit path traverse visit =
     returning VUndefined (block
       [emit (T ''WITH_BEGIN'') (APath path) (int (length ''with'')),
        traverse path,
        emitEnd (T ''WITH_END'') (APath path) []])"

definition visitSwitchStatement :: vmethod where
  "visitSwitchStatement this_traverse this_visit path traverse visit =
     returning VUndefined (block
       [emit (T ''SWITCH_BEGIN'') (APath path) (int (length ''switch'')),
        traverse path,
        emitEnd (T ''SWITCH_END'') (APath path) []])"

definition visitSwitchCase :: vmethod where
  "visitSwitchCase this_traverse this_visit path traverse visit =
     (let node = pvalue path in
      returning VUndefined (block
        [bind_arg (member node ''test'') (\<lambda>test.
           emit (T ''CASE'') (ANode node)
             (int (length (if nullish test then ''default'' else ''case''))))]))"

definition visitReturnStatement :: vmethod where
  "visitReturnStatement this_traverse this_visit path traverse visit =
     (let node = pvalue path in
      returning VUndefined (block
        [emit (T ''RETURN'') (ANode node) (int (length ''return''))]))"

definition visitThrowStatement :: vmethod where
  "visitThrowStatement this_traverse this_visit path traverse visit =
     (let node = pvalue path in
      returning VUndefined (block
        [emit (T ''THROW'') (ANode node) (int (length ''throw''))]))"

definition visitTryStatement :: vmethod where
  "visitTryStatement this_traverse this_visit path traverse visit =
     (let node = pvalue path in
      returning VUndefined (block
        [emit (T ''TRY'') (ANode node) (int (length ''try''))]))"

definition visitCatchClause :: vmethod where
  "visitCatchClause this_traverse this_visit path traverse visit =
     returning VUndefined (block
       [emit (T ''CATCH_BEGIN'') (APath path) (int (length ''catch'')),
        traverse path,
        emitEnd (T ''CATCH_END'') (APath path) []])"

definition visitWhileStatement :: vmethod where
  "visitWhileStatement this_traverse this_visit path traverse visit =
     returning VUndefined (block
       [emit (T ''WHILE_BEGIN'') (APath path) (int (length ''while'')),
        traverse path,
        emitEnd (T ''WHILE_END'') (APath path) []])"

definition visitDoWhileStatement :: vmethod where
  "visitDoWhileStatement this_traverse this_visit path traverse visit =
     returning VUndefined (block
       [emit (T ''DO_WHILE_BEGIN'') (APath path) (int (length ''do'')),
        traverse path,
        emitEnd (T ''DO_WHILE_END'') (APath path) []])"

definition visitForOfStatement :: vmethod where
  "visitForOfStatement this_traverse this_visit path traverse visit =
     returning VUndefined (block
       [emit (T ''FOR_BEGIN'') (APath path) (int (length ''for'')),
        visit (pget path ''left''),
        bind_arg (member (pvalue path) ''left'') (\<lambda>left.
          emit (T ''ASSIGN'') (ANode left) (int (length ''=''))),
        visit (pget path ''right''),
        visit (pget path ''body''),
        emitEnd (T ''FOR_END'') (APath path) []])"

definition visitVariableDeclarator :: vmethod where
  "visitVariableDeclarator this_traverse this_visit path traverse visit =
     (let node = pvalue path in
      returning VUndefined (block
        [bind_arg (member node ''init'') (\<lambda>init.
           js_if (\<not> nullish init) (
             bind_arg (member node ''id'') (\<lambda>ident.
             bind_arg (getLength ident) (\<lambda>len.
               emit (T ''ASSIGN'') (ANode node) len))))]))"

definition visitArrayExpression :: vmethod where
  "visitArrayExpression this_traverse this_visit path t visit =
     returning VUndefined (block
       [emit (T ''ARRAY_BEGIN'') (APath path) (int (length ''['')),
        t path,
        emitEnd (T ''ARRAY_END'') (APath path) []])"

definition visitObjectExpression :: vmethod where
  "visitObjectExpression this_traverse this_visit path t visit =
     returning VUndefined (block
       [emit (T ''OBJECT_BEGIN'') (APath path) (int (length ''{'')),
        t path,
        emitEnd (T ''OBJECT_END'') (APath path) []])"

definition visitAssignmentExpression :: vmethod where
  "visitAssignmentExpression this_traverse this_visit path traverse visit =
     returning VUndefined (block
       [visit (pget path ''left''),
        bind_arg (member (pvalue path) ''operator'') (\<lambda>operator.
        bind_arg (operator_length operator) (\<lambda>len.
          emit (T ''ASSIGN'') (APath path) len)),
        visit (pget path ''right'')])"

definition visitUpdateExpression :: vmethod where
  "visitUpdateExpression this_traverse this_visit path t visit =
     returning VUndefined (block
       [t path,
        bind_arg (member (pvalue path) ''operator'') (\<lambda>operator.
        bind_arg (operator_length operator) (\<lambda>len.
          emit (T ''ASSIGN'') (APath path) len))])"

definition visitConditionalExpression :: vmethod where
  "visitConditionalExpression this_traverse this_visit path traverse visit =
     (let node = pvalue path in
      returning VUndefined (block
        [bind_arg (member node ''test'') (\<lambda>test.
         bind_arg (getLength test) (\<lambda>len.
           emit (T ''TERNARY'') (ANode node) (len + int (length '' ?''))))]))"

definition visitYieldExpression :: vmethod where
  "visitYieldExpression this_traverse this_visit path traverse visit =
     (let node = pvalue path in
      returning VUndefined (block
        [emit (T ''YIELD'') (ANode node) (int (length ''yield''))]))"

definition visitGeneratorExpression :: vmethod where
  "visitGeneratorExpression this_traverse this_visit path traverse visit =
     returning VUndefined (block
       [emit (T ''GEN_EXPR_BEGIN'') (APath path) (int (length ''('')),
        traverse path,
        emitEnd (T ''GEN_EXPR_END'') (APath path) []])"

definition visitComprehensionExpression :: vmethod where
  "visitComprehensionExpression this_traverse this_visit path traverse visit =
     returning VUndefined (block
       [emit (T ''ARRAY_COMP_BEGIN'') (APath path) (int (length ''['')),
        traverse path,
        emitEnd (T ''ARRAY_COMP_END'') (APath path) []])"

definition visitImportDeclaration :: vmethod where
  "visitImportDeclaration this_traverse this_visit path traverse visit =
     returning VUndefined (block
       [emit (T ''IMPORT'') (APath path) (int (length ''import''))])"

definition visitImportExpression :: vmethod where
  "visitImportExpression this_traverse this_visit path traverse visit =
     returning VUndefined (block
       [emit (T ''IMPORT'') (APath path) (int (length ''import''))])"

definition visitAwaitExpression :: vmethod where
  "visitAwaitExpression this_traverse this_visit path traverse visit =
     returning VUndefined (block
       [emit (T ''AWAIT'') (APath path) (int (length ''await''))])"

definition visitDecorator :: vmethod where
  "visitDecorator this_traverse this_visit path traverse visit =
     returning VUndefined (block
       [emit (T ''DECORATOR'') (APath path) (int (length ''@''))])"

definition visitExportNamedDeclaration :: vmethod where
  "visitExportNamedDeclaration this_traverse this_visit path traverse visit =
     returning VUndefined (block
       [emit (T ''EXPORT'') (APath path) (int (length ''export''))])"

definition visitExportDefaultDeclaration :: vmethod where
  "visitExportDefaultDeclaration this_traverse this_visit path traverse visit =
     returning VUndefined (block
       [emit (T ''EXPORT'') (APath path) (int (length ''export''))])"

definition visitExportAllDeclaration :: vmethod where
  "visitExportAllDeclaration this_traverse this_visit path traverse visit =
     returning VUndefined (block
       [emit (T ''EXPORT'') (APath path) (int (length ''export''))])"

text \<open>
  The function \<^verbatim>\<open>makeTraverser\<close> stores under a key that matches \<^verbatim>\<open>/^visit[A-Z]/\<close>:
  it runs the method with two callbacks that call \<^verbatim>\<open>this.traverse\<close> and
  \<^verbatim>\<open>this.visit\<close> and then set \<^verbatim>\<open>traversed\<close>; when neither was called and the method
  returned nothing truthy, it calls \<^verbatim>\<open>this.traverse(path)\<close> itself. \<^verbatim>\<open>traversed\<close> is a
  local of each call, so the call starts with it \<^verbatim>\<open>false\<close>.
\<close>

definition callback :: "walker \<Rightarrow> path \<Rightarrow> stmt" where
  "callback w p s =
     (case w p (res s) of
        Inl e \<Rightarrow> Inl e
      | Inr r \<Rightarrow> Inr \<lparr>res = r, traversed = True\<rparr>)"

definition wrapped :: "vmethod \<Rightarrow> walker \<Rightarrow> walker \<Rightarrow> walker" where
  "wrapped value_fn this_traverse this_visit path res0 =
     (case value_fn this_traverse this_visit path
             (callback this_traverse) (callback this_visit)
             \<lparr>res = res0, traversed = False\<rparr> of
        Inl e \<Rightarrow> Inl e
      | Inr (r, s) \<Rightarrow>
          if \<not> traversed s \<and> \<not> truthy r then this_traverse path (res s)
          else Inr (res s))"

text \<open>
  \<^verbatim>\<open>visitForInStatement\<close> calls \<^verbatim>\<open>this.visitForOfStatement(path)\<close>: the method of the
  visitor object, which is the wrapped one, with the same \<^verbatim>\<open>this\<close>; then it returns
  \<^verbatim>\<open>true\<close>.
\<close>

definition visitForInStatement :: vmethod where
  "visitForInStatement this_traverse this_visit path traverse visit =
     returning (VBool True) (block
       [\<lambda>s. case wrapped visitForOfStatement this_traverse this_visit path (res s) of
               Inl e \<Rightarrow> Inl e
             | Inr r \<Rightarrow> Inr (s\<lparr>res := r\<rparr>)])"

text \<open>The object literal of \<^verbatim>\<open>ASTToTokens\<close>, and \<^verbatim>\<open>makeTraverser\<close> applied to it.\<close>

definition visitor_methods :: "(string \<times> vmethod) list" where
  "visitor_methods =
    [(''visitForStatement'', visitForStatement),
     (''visitFunction'', visitFunction),
     (''visitBreakStatement'', visitBreakStatement),
     (''visitContinueStatement'', visitContinueStatement),
     (''visitCallExpression'', visitCallExpression),
     (''visitIfStatement'', visitIfStatement),
     (''visitClassDeclaration'', visitClassDeclaration),
     (''visitClassExpression'', visitClassExpression),
     (''visitWithStatement'', visitWithStatement),
     (''visitSwitchStatement'', visitSwitchStatement),
     (''visitSwitchCase'', visitSwitchCase),
     (''visitReturnStatement'', visitReturnStatement),
     (''visitThrowStatement'', visitThrowStatement),
     (''visitTryStatement'', visitTryStatement),
     (''visitCatchClause'', visitCatchClause),
     (''visitWhileStatement'', visitWhileStatement),
     (''visitDoWhileStatement'', visitDoWhileStatement),
     (''visitForOfStatement'', visitForOfStatement),
     (''visitForInStatement'', visitForInStatement),
     (''visitVariableDeclarator'', visitVariableDeclarator),
     (''visitArrayExpression'', visitArrayExpression),
     (''visitObjectExpression'', visitObjectExpression),
     (''visitAssignmentExpression'', visitAssignmentExpression),
     (''visitUpdateExpression'', visitUpdateExpression),
     (''visitConditionalExpression'', visitConditionalExpression),
     (''visitYieldExpression'', visitYieldExpression),
     (''visitGeneratorExpression'', visitGeneratorExpression),
     (''visitComprehensionExpression'', visitComprehensionExpression),
     (''visitImportDeclaration'', visitImportDeclaration),
     (''visitImportExpression'', visitImportExpression),
     (''visitAwaitExpression'', visitAwaitExpression),
     (''visitDecorator'', visitDecorator),
     (''visitExportNamedDeclaration'', visitExportNamedDeclaration),
     (''visitExportDefaultDeclaration'', visitExportDefaultDeclaration),
     (''visitExportAllDeclaration'', visitExportAllDeclaration)]"

definition makeTraverser ::
  "(string \<times> vmethod) list \<Rightarrow> (string \<times> (walker \<Rightarrow> walker \<Rightarrow> walker)) list" where
  "makeTraverser obj = map (\<lambda>(key, value_fn). (key, wrapped value_fn)) obj"

section \<open>The traversal of ast-types\<close>

text \<open>
  \<^verbatim>\<open>visit(ast, methods)\<close> is the library ast-types; the code under verification only
  calls it. This section writes down the part of \<^verbatim>\<open>PathVisitor\<close> the methods rely on:
  \<^item> the method for a node is looked up by the node's type, and a method named after a
    supertype serves its subtypes: of the names in the visitor only \<^verbatim>\<open>Function\<close> is a
    supertype, of the three function node types acorn builds;
  \<^item> \<^verbatim>\<open>visitWithoutReset\<close> calls the method when there is one and walks the children
    otherwise; \<^verbatim>\<open>this.traverse(path)\<close> walks the children of a path; \<^verbatim>\<open>this.visit(path)\<close>
    is \<^verbatim>\<open>visitWithoutReset\<close>;
  \<^item> the children of an array are its elements and the children of a node are the values
    of its fields, in order; other values have none.
  Every path through a wrapped method calls \<^verbatim>\<open>this.traverse\<close> or \<^verbatim>\<open>this.visit\<close>, so the
  library's check that one of them was called never fails and is left out. The library
  knows every node type the parsers build, and the defaults it fills in for fields a node
  lacks are \<^verbatim>\<open>null\<close>, \<^verbatim>\<open>false\<close> or empty arrays, which hold no node. Calling a method
  the visitor does not have would be a type error; the table of method names only names
  methods it has.
\<close>

definition function_types :: "string list" where
  "function_types =
     [''FunctionDeclaration'', ''FunctionExpression'', ''ArrowFunctionExpression'']"

definition methodNameTable :: "string \<Rightarrow> string option" where
  "methodNameTable t =
     (if (''visit'' @ t) \<in> set (map fst (makeTraverser visitor_methods))
        then Some (''visit'' @ t)
      else if t \<in> set function_types then Some ''visitFunction''
      else None)"

definition invokeVisitorMethod :: "string \<Rightarrow> walker \<Rightarrow> walker \<Rightarrow> walker" where
  "invokeVisitorMethod methodName this_traverse this_visit path res0 =
     (case map_of (makeTraverser visitor_methods) methodName of
        None \<Rightarrow> Inl TypeError
      | Some m \<Rightarrow> m this_traverse this_visit path res0)"

text \<open>
  A method calls \<^verbatim>\<open>this.traverse\<close> on its own path only and \<^verbatim>\<open>this.visit\<close> on paths of
  its children only; this is what makes the traversal terminate.
\<close>

lemma callback_eq:
  assumes "\<And>r. w p r = w' p r"
  shows "callback w p = callback w' p"
  by (rule ext) (simp add: callback_def assms)

lemma wrapped_visitForOfStatement_eq:
  assumes tr: "\<And>r. tr path r = tr' path r"
    and vi: "\<And>name r. vi (pget path name) r = vi' (pget path name) r"
  shows "wrapped visitForOfStatement tr vi path r0 = wrapped visitForOfStatement tr' vi' path r0"
proof -
  have c: "callback tr path = callback tr' path"
    "\<And>name. callback vi (pget path name) = callback vi' (pget path name)"
    using tr vi by (auto intro: callback_eq)
  show ?thesis
    by (simp add: wrapped_def visitForOfStatement_def c tr
        cong: if_cong sum.case_cong prod.case_cong)
qed

lemmas visitor_method_defs =
  visitForStatement_def visitFunction_def visitBreakStatement_def
  visitContinueStatement_def visitCallExpression_def visitIfStatement_def
  visitClassDeclaration_def visitClassExpression_def visitWithStatement_def
  visitSwitchStatement_def visitSwitchCase_def visitReturnStatement_def
  visitThrowStatement_def visitTryStatement_def visitCatchClause_def
  visitWhileStatement_def visitDoWhileStatement_def visitForOfStatement_def
  visitForInStatement_def visitVariableDeclarator_def visitArrayExpression_def
  visitObjectExpression_def visitAssignmentExpression_def visitUpdateExpression_def
  visitConditionalExpression_def visitYieldExpression_def
  visitGeneratorExpression_def visitComprehensionExpression_def
  visitImportDeclaration_def visitImportExpression_def visitAwaitExpression_def
  visitDecorator_def visitExportNamedDeclaration_def
  visitExportDefaultDeclaration_def visitExportAllDeclaration_def

lemma invokeVisitorMethod_cong [fundef_cong]:
  assumes "m = m'" "path = path'" "r0 = r0'"
    and tr: "\<And>r. tr path' r = tr' path' r"
    and vi: "\<And>name r. vi (pget path' name) r = vi' (pget path' name) r"
  shows "invokeVisitorMethod m tr vi path r0 = invokeVisitorMethod m' tr' vi' path' r0'"
proof -
  have c: "callback tr path' = callback tr' path'"
    "\<And>name. callback vi (pget path' name) = callback vi' (pget path' name)"
    using tr vi by (auto intro: callback_eq)
  note w = wrapped_visitForOfStatement_eq[of tr path' tr' vi vi', OF tr vi]
  have "wrapped f tr vi path' r0' = wrapped f tr' vi' path' r0'"
    if "f \<in> snd ` set visitor_methods" for f
    using that
    apply (simp add: visitor_methods_def)
    apply (elim disjE)
    apply (simp_all add: wrapped_def c tr w visitor_method_defs
        cong: if_cong sum.case_cong prod.case_cong)
    done
  then have w': "wrapped f tr vi path' r0' = wrapped f tr' vi' path' r0'"
    if "(k, f) \<in> set visitor_methods" for k f
    using that by force
  show ?thesis
  proof (cases "map_of (makeTraverser visitor_methods) m'")
    case None
    then show ?thesis using assms(1-3) by (simp add: invokeVisitorMethod_def)
  next
    case (Some g)
    then obtain f where "(m', f) \<in> set visitor_methods" "g = wrapped f"
      by (auto simp: makeTraverser_def dest!: map_of_SomeD)
    with Some w' show ?thesis using assms(1-3) by (simp add: invokeVisitorMethod_def)
  qed
qed

lemma size_field:
  "(k, v) \<in> set fs \<Longrightarrow> size v < Suc (size_list (size_prod (\<lambda>_. 0) size) fs)"
  by (induction fs) auto

lemma size_get_le: "size (get n name) \<le> size n"
proof (cases n)
  case (Node t l r fs)
  show ?thesis
  proof (cases "map_of fs name")
    case None
    then show ?thesis by (simp add: get_def Node)
  next
    case (Some v)
    then have "(name, v) \<in> set fs" by (rule map_of_SomeD)
    from size_field[OF this] Some show ?thesis by (simp add: get_def Node)
  qed
qed

lemma size_fields_le: "size_list (size \<circ> snd) (nfields n) \<le> size n"
proof (cases n)
  case (Node t l r fs)
  have "size_list (size \<circ> snd) fs \<le> size_list (size_prod (\<lambda>_. 0) size) fs"
    by (induction fs) auto
  then show ?thesis by (simp add: Node)
qed

function visitWithoutReset :: walker
  and visitChildren :: walker
  and each :: "jsval list \<Rightarrow> token list \<Rightarrow> error + token list" where
  "visitWithoutReset path res0 =
     (case pvalue path of
        VObj n \<Rightarrow>
          (case methodNameTable (ntype n) of
             Some methodName \<Rightarrow>
               invokeVisitorMethod methodName
                 (\<lambda>p r. visitChildren p r) (\<lambda>p r. visitWithoutReset p r) path res0
           | None \<Rightarrow> visitChildren path res0)
      | _ \<Rightarrow> visitChildren path res0)"
| "visitChildren path res0 =
     (case pvalue path of
        VArr xs \<Rightarrow> each xs res0
      | VObj n \<Rightarrow> each (map snd (nfields n)) res0
      | _ \<Rightarrow> Inr res0)"
| "each [] res0 = Inr res0"
| "each (x # xs) res0 =
     (case visitWithoutReset (NodePath x) res0 of
        Inl e \<Rightarrow> Inl e
      | Inr r \<Rightarrow> each xs r)"
  by pat_completeness auto
termination
  apply (relation "measure (\<lambda>x. case x of
          Inl (p, r) \<Rightarrow> 4 * size (pvalue p) + 3
        | Inr (Inl (p, r)) \<Rightarrow> 4 * size (pvalue p) + 2
        | Inr (Inr (xs, r)) \<Rightarrow> 4 * size_list size xs + 1)")
  apply (auto simp: pget_def)
  subgoal for path n m name using size_get_le[of n name] by simp
  subgoal for path n using size_fields_le[of n] by simp
  done

section \<open>From a file to its tokens\<close>

text \<open>
  \<^verbatim>\<open>ASTToTokens(ast)\<close>: \<^verbatim>\<open>res\<close> starts empty, \<^verbatim>\<open>visit\<close> puts the tree under a root path
  and walks it, and \<^verbatim>\<open>res\<close> is returned. Nothing catches what an emitting function
  throws, so it ends the call.
\<close>

definition ASTToTokens :: "jsval \<Rightarrow> error + token list" where
  "ASTToTokens ast = visitWithoutReset (NodePath ast) []"

text \<open>
  \<^verbatim>\<open>res.sort(compare)\<close> with the comparison function of \<^verbatim>\<open>doParse\<close>.
  \<^verbatim>\<open>Array.prototype.sort\<close> is the language's; it is taken to be stable, as ECMAScript
  2019 requires, and written as an insertion sort: an element goes before the first
  element it does not compare greater than.
\<close>

definition compareFn :: "token \<Rightarrow> token \<Rightarrow> int" where
  "compareFn a b =
     (let diff = line a - line b in
      if diff = 0 then column a - column b else diff)"

fun insert_by :: "('a \<Rightarrow> 'a \<Rightarrow> int) \<Rightarrow> 'a \<Rightarrow> 'a list \<Rightarrow> 'a list" where
  "insert_by cmp x [] = [x]"
| "insert_by cmp x (y # ys) =
     (if cmp x y \<le> 0 then x # y # ys else y # insert_by cmp x ys)"

definition array_sort :: "('a \<Rightarrow> 'a \<Rightarrow> int) \<Rightarrow> 'a list \<Rightarrow> 'a list" where
  "array_sort cmp xs = foldr (insert_by cmp) xs []"

text \<open>
  The two parsers are acorn and acorn-loose with the plugins and the options of
  \<^verbatim>\<open>parseToAst\<close>; each is a function from the text to a tree or to what it throws.
  \<^verbatim>\<open>parseToAst\<close> returns what it wrote with \<^verbatim>\<open>console.error\<close> next to its result.
\<close>

type_synonym parser = "string \<Rightarrow> error + jsval"

fun error_string :: "error \<Rightarrow> string" where
  "error_string AssertionError = ''AssertionError''"
| "error_string TypeError = ''TypeError''"
| "error_string (SyntaxError m) = ''SyntaxError: '' @ m"
| "error_string (IOError m) = ''Error: '' @ m"

definition parseToAst :: "parser \<Rightarrow> parser \<Rightarrow> string \<Rightarrow> string list \<times> (error + jsval)" where
  "parseToAst strict loose content =
     (case strict content of
        Inr ast \<Rightarrow> ([], Inr ast)
      | Inl e \<Rightarrow> ([''Got parse error: '' @ error_string e], loose content))"

text \<open>
  \<^verbatim>\<open>doParse(filename)\<close>. The file system is a map from names to contents;
  \<^verbatim>\<open>readFileSync\<close> throws where there is no file.
\<close>

definition doParse ::
  "(string \<rightharpoonup> string) \<Rightarrow> parser \<Rightarrow> parser \<Rightarrow> string \<Rightarrow> string list \<times> (error + token list)" where
  "doParse fs strict loose filename =
     (case fs filename of
        None \<Rightarrow> ([], Inl (IOError filename))
      | Some content \<Rightarrow>
          (case parseToAst strict loose content of
             (log, Inl e) \<Rightarrow> (log, Inl e)
           | (log, Inr ast) \<Rightarrow>
               (case ASTToTokens ast of
                  Inl e \<Rightarrow> (log, Inl e)
                | Inr r \<Rightarrow> (log, Inr (array_sort compareFn r)))))"

text \<open>
  The dispatch on \<^verbatim>\<open>process.argv\<close> at the end of the file: what is handed to
  \<^verbatim>\<open>console.log\<close>, before \<^verbatim>\<open>JSON.stringify\<close>. \<^verbatim>\<open>argv[i]\<close> past the end is
  \<^verbatim>\<open>undefined\<close>, and \<^verbatim>\<open>readFileSync(undefined)\<close> throws a type error.
\<close>

datatype printed = Amount int | Mapping "(int \<times> string) list" | Tokens "token list"

definition argv_at :: "string list \<Rightarrow> nat \<Rightarrow> string option" where
  "argv_at argv i = (if i < length argv then Some (argv ! i) else None)"

definition main ::
  "(string \<rightharpoonup> string) \<Rightarrow> parser \<Rightarrow> parser \<Rightarrow> string list \<Rightarrow> string list \<times> (error + printed)" where
  "main fs strict loose argv =
     (if argv_at argv 3 = Some ''AMOUNT'' then ([], Inr (Amount (keys_length TOKENS + 1)))
      else if argv_at argv 3 = Some ''MAPPING'' then ([], Inr (Mapping TOKENS_REVERSE))
      else
        (case argv_at argv 2 of
           None \<Rightarrow> ([], Inl TypeError)
         | Some filename \<Rightarrow>
             (case doParse fs strict loose filename of
                (log, Inl e) \<Rightarrow> (log, Inl e)
              | (log, Inr r) \<Rightarrow> (log, Inr (Tokens r)))))"

section \<open>Notions the properties are stated with\<close>

text \<open>
  \<open>subvalues v\<close> are the values reachable from \<open>v\<close> through fields and array elements:
  the nodes of the tree are the \<open>VObj n\<close> among them.
\<close>

inductive_set subvalues :: "jsval \<Rightarrow> jsval set" for v :: jsval where
  root: "v \<in> subvalues v"
| field: "VObj n \<in> subvalues v \<Longrightarrow> (k, w) \<in> set (nfields n) \<Longrightarrow> w \<in> subvalues v"
| element: "VArr xs \<in> subvalues v \<Longrightarrow> w \<in> set xs \<Longrightarrow> w \<in> subvalues v"

text \<open>
  The closing kind of a construct: the kind its method hands to \<^verbatim>\<open>emitEnd\<close>, by the
  name of the method that serves the node's type. \<open>end_anchor\<close> is the value
  \<^verbatim>\<open>emitEnd\<close> reads the closing position from: the node, except that
  \<^verbatim>\<open>visitIfStatement\<close> hands the node itself and not its path, so that
  \<^verbatim>\<open>node.value || node\<close> picks a truthy \<^verbatim>\<open>value\<close> field if an if statement has one
  (no tree of the parsers does).
\<close>

definition end_table :: "(string \<times> string) list" where
  "end_table =
    [(''visitForStatement'', ''FOR_END''), (''visitFunction'', ''FUNCTION_END''),
     (''visitIfStatement'', ''IF_END''), (''visitClassDeclaration'', ''CLASS_END''),
     (''visitClassExpression'', ''IN_CLASS_END''), (''visitWithStatement'', ''WITH_END''),
     (''visitSwitchStatement'', ''SWITCH_END''), (''visitCatchClause'', ''CATCH_END''),
     (''visitWhileStatement'', ''WHILE_END''), (''visitDoWhileStatement'', ''DO_WHILE_END''),
     (''visitForOfStatement'', ''FOR_END''), (''visitForInStatement'', ''FOR_END''),
     (''visitArrayExpression'', ''ARRAY_END''), (''visitObjectExpression'', ''OBJECT_END''),
     (''visitGeneratorExpression'', ''GEN_EXPR_END''),
     (''visitComprehensionExpression'', ''ARRAY_COMP_END'')]"

definition closing_kind :: "string \<Rightarrow> string option" where
  "closing_kind t =
     (case methodNameTable t of None \<Rightarrow> None | Some m \<Rightarrow> map_of end_table m)"

definition end_anchor :: "node \<Rightarrow> jsval" where
  "end_anchor c =
     (if ntype c = ''IfStatement'' \<and> truthy (get c ''value'') then get c ''value''
      else VObj c)"

text \<open>
  A token of the node \<open>c\<close>: either its kind is not END-suffixed and its length is
  positive, or it is the closing token of \<open>c\<close>: END-suffixed, of the closing kind of
  \<open>c\<close>'s type, of length 1, on the end line of the anchor and one column left of its
  end column, but not left of column 0. \<open>from_tree v\<close> are the tokens of the nodes of
  \<open>v\<close>; \<open>adds Q f\<close> says that \<open>f\<close>, when it returns, has appended tokens that
  satisfy \<open>Q\<close> and left the earlier ones alone.
\<close>

definition tok_of :: "node \<Rightarrow> token \<Rightarrow> bool" where
  "tok_of c t =
     ((\<exists>k. key t = Some k \<and> \<not> endsWith k ''END'' \<and> 0 < length_t t) \<or>
      (\<exists>k n l. key t = Some k \<and> endsWith k ''END'' \<and> closing_kind (ntype c) = Some k \<and>
         end_anchor c = VObj n \<and> nloc n = Some l \<and> length_t t = 1 \<and>
         line t = pos_line (loc_end l) \<and>
         column t = max (pos_column (loc_end l) - 1) 0))"

definition from_tree :: "jsval \<Rightarrow> token \<Rightarrow> bool" where
  "from_tree v t = (\<exists>c. VObj c \<in> subvalues v \<and> tok_of c t)"

definition adds :: "(token \<Rightarrow> bool) \<Rightarrow> (token list \<Rightarrow> error + token list) \<Rightarrow> bool" where
  "adds Q f = (\<forall>r r'. f r = Inr r' \<longrightarrow> (\<exists>new. r' = r @ new \<and> list_all Q new))"

definition adds_s :: "(token \<Rightarrow> bool) \<Rightarrow> stmt \<Rightarrow> bool" where
  "adds_s Q c = (\<forall>s s'. c s = Inr s' \<longrightarrow> (\<exists>new. res s' = res s @ new \<and> list_all Q new))"

definition adds_r :: "(token \<Rightarrow> bool) \<Rightarrow> (state \<Rightarrow> error + (jsval \<times> state)) \<Rightarrow> bool" where
  "adds_r Q c =
     (\<forall>s v s'. c s = Inr (v, s') \<longrightarrow> (\<exists>new. res s' = res s @ new \<and> list_all Q new))"

text \<open>
  \<open>pos_le a b\<close>: the position of \<open>a\<close> is not after that of \<open>b\<close>, lines first and
  columns second. The comparison function of \<^verbatim>\<open>doParse\<close> is not positive exactly then.
\<close>

definition pos_le :: "token \<Rightarrow> token \<Rightarrow> bool" where
  "pos_le a b = (line a < line b \<or> (line a = line b \<and> column a \<le> column b))"

definition same_pos :: "int \<Rightarrow> int \<Rightarrow> token \<Rightarrow> bool" where
  "same_pos l c t = (line t = l \<and> column t = c)"

text \<open>The body of \<^verbatim>\<open>visitForOfStatement\<close> on the path of a node.\<close>

definition forof_body :: "walker \<Rightarrow> node \<Rightarrow> stmt" where
  "forof_body vi n =
     block
       [emit (T ''FOR_BEGIN'') (APath (NodePath (VObj n))) 3,
        callback vi (NodePath (get n ''left'')),
        emit (T ''ASSIGN'') (ANode (get n ''left'')) 1,
        callback vi (NodePath (get n ''right'')),
        callback vi (NodePath (get n ''body'')),
        emitEnd (T ''FOR_END'') (APath (NodePath (VObj n))) []]"






section \<open>Inputs of the scenarios\<close>

text \<open>
  A file system with one file; a parser that knows one text and rejects every other; a
  parser that rejects every text. \<open>at1\<close> builds a node of a one-line text: on line 1
  columns are offsets, so \<^verbatim>\<open>loc\<close> and \<^verbatim>\<open>range\<close> carry the same two numbers.
\<close>

definition single_file :: "string \<Rightarrow> string \<Rightarrow> (string \<rightharpoonup> string)" where
  "single_file name content = [name \<mapsto> content]"

definition parses_to :: "string \<Rightarrow> jsval \<Rightarrow> parser" where
  "parses_to src ast content =
     (if content = src then Inr ast else Inl (SyntaxError ''Unexpected token''))"

definition rejects :: parser where
  "rejects content = Inl (SyntaxError ''Unexpected token'')"

definition at1 :: "string \<Rightarrow> int \<Rightarrow> int \<Rightarrow> (string \<times> jsval) list \<Rightarrow> jsval" where
  "at1 t a b fs =
     VObj (Node t (Some (SourceLocation (Position 1 a) (Position 1 b))) (Some (a, b)) fs)"

text \<open>
  Scenario A, \<^verbatim>\<open>for (let i = 0; i < 3; i++) {}\<close>: the tree acorn builds for it, with
  the offsets of the text (the statement is 30 characters long; \<^verbatim>\<open>i = 0\<close> starts at
  9, \<^verbatim>\<open>i++\<close> at 23, the block at 28).
\<close>

definition scenarioA_src :: string where
  "scenarioA_src = ''for (let i = 0; i < 3; i++) {}''"

definition scenarioA_ast :: jsval where
  "scenarioA_ast =
     at1 ''Program'' 0 30
       [(''body'', VArr
          [at1 ''ForStatement'' 0 30
             [(''init'', at1 ''VariableDeclaration'' 5 14
                 [(''kind'', VStr ''let''),
                  (''declarations'', VArr
                     [at1 ''VariableDeclarator'' 9 14
                        [(''id'', at1 ''Identifier'' 9 10 [(''name'', VStr ''i'')]),
                         (''init'', at1 ''Literal'' 13 14
                            [(''value'', VNum 0), (''raw'', VStr ''0'')])]])]),
              (''test'', at1 ''BinaryExpression'' 16 21
                 [(''operator'', VStr ''<''),
                  (''left'', at1 ''Identifier'' 16 17 [(''name'', VStr ''i'')]),
                  (''right'', at1 ''Literal'' 20 21
                     [(''value'', VNum 3), (''raw'', VStr ''3'')])]),
              (''update'', at1 ''UpdateExpression'' 23 26
                 [(''operator'', VStr ''++''),
                  (''argument'', at1 ''Identifier'' 23 24 [(''name'', VStr ''i'')]),
                  (''prefix'', VBool False)]),
              (''body'', at1 ''BlockStatement'' 28 30 [(''body'', VArr [])])]]),
        (''sourceType'', VStr ''module'')]"

definition scenarioA_tokens :: "token list" where
  "scenarioA_tokens =
     [\<lparr>key = Some ''FOR_BEGIN'', value_t = 2, line = 1, column = 0, length_t = 3\<rparr>,
      \<lparr>key = Some ''ASSIGN'', value_t = 30, line = 1, column = 9, length_t = 1\<rparr>,
      \<lparr>key = Some ''ASSIGN'', value_t = 30, line = 1, column = 23, length_t = 2\<rparr>,
      \<lparr>key = Some ''FOR_END'', value_t = 3, line = 1, column = 29, length_t = 1\<rparr>]"

text \<open>
  \<^verbatim>\<open>f()[g()] = 1\<close>: the assignment visits its left side first, so the two calls are
  emitted before the ASSIGN, which sits at the start of the statement where the first
  call sits too.
\<close>

definition scenarioS_src :: string where
  "scenarioS_src = ''f()[g()] = 1''"

definition scenarioS_ast :: jsval where
  "scenarioS_ast =
     at1 ''Program'' 0 12
       [(''body'', VArr
          [at1 ''ExpressionStatement'' 0 12
             [(''expression'', at1 ''AssignmentExpression'' 0 12
                 [(''operator'', VStr ''=''),
                  (''left'', at1 ''MemberExpression'' 0 8
                     [(''object'', at1 ''CallExpression'' 0 3
                         [(''callee'', at1 ''Identifier'' 0 1 [(''name'', VStr ''f'')]),
                          (''arguments'', VArr [])]),
                      (''property'', at1 ''CallExpression'' 4 7
                         [(''callee'', at1 ''Identifier'' 4 5 [(''name'', VStr ''g'')]),
                          (''arguments'', VArr [])]),
                      (''computed'', VBool True)]),
                  (''right'', at1 ''Literal'' 11 12
                     [(''value'', VNum 1), (''raw'', VStr ''1'')])])]]),
        (''sourceType'', VStr ''module'')]"

definition scenarioS_emitted :: "token list" where
  "scenarioS_emitted =
     [\<lparr>key = Some ''APPLY'', value_t = 7, line = 1, column = 0, length_t = 1\<rparr>,
      \<lparr>key = Some ''APPLY'', value_t = 7, line = 1, column = 4, length_t = 1\<rparr>,
      \<lparr>key = Some ''ASSIGN'', value_t = 30, line = 1, column = 0, length_t = 1\<rparr>]"

definition scenarioS_tokens :: "token list" where
  "scenarioS_tokens =
     [\<lparr>key = Some ''APPLY'', value_t = 7, line = 1, column = 0, length_t = 1\<rparr>,
      \<lparr>key = Some ''ASSIGN'', value_t = 30, line = 1, column = 0, length_t = 1\<rparr>,
      \<lparr>key = Some ''APPLY'', value_t = 7, line = 1, column = 4, length_t = 1\<rparr>]"

text \<open>
  \<^verbatim>\<open>if (x) {} else {}\<close>: 17 characters; the \<^verbatim>\<open>else\<close> keyword is at offset 10 and the
  block after it at offset 15.
\<close>

definition scenarioC_src :: string where
  "scenarioC_src = ''if (x) {} else {}''"

definition scenarioC_ast :: jsval where
  "scenarioC_ast =
     at1 ''Program'' 0 17
       [(''body'', VArr
          [at1 ''IfStatement'' 0 17
             [(''test'', at1 ''Identifier'' 4 5 [(''name'', VStr ''x'')]),
              (''consequent'', at1 ''BlockStatement'' 7 9 [(''body'', VArr [])]),
              (''alternate'', at1 ''BlockStatement'' 15 17 [(''body'', VArr [])])]]),
        (''sourceType'', VStr ''module'')]"

definition scenarioC_tokens :: "token list" where
  "scenarioC_tokens =
     [\<lparr>key = Some ''IF_BEGIN'', value_t = 8, line = 1, column = 0, length_t = 2\<rparr>,
      \<lparr>key = Some ''ELSE'', value_t = 10, line = 1, column = 15, length_t = 1\<rparr>,
      \<lparr>key = Some ''IF_END'', value_t = 9, line = 1, column = 16, length_t = 1\<rparr>]"

text \<open>
  \<^verbatim>\<open>() => 1\<close>: seven characters, one arrow function whose body is the literal at
  offset 6.
\<close>

definition arrow_src :: string where
  "arrow_src = ''() => 1''"

definition arrow_node :: node where
  "arrow_node =
     Node ''ArrowFunctionExpression''
       (Some (SourceLocation (Position 1 0) (Position 1 7))) (Some (0, 7))
       [(''id'', VNull), (''params'', VArr []),
        (''body'', at1 ''Literal'' 6 7 [(''value'', VNum 1), (''raw'', VStr ''1'')]),
        (''generator'', VBool False), (''expression'', VBool True),
        (''async'', VBool False)]"

text \<open>
  \<^verbatim>\<open>for (a().b in c()) d()\<close>: 22 characters, a for-in statement whose left-hand side
  (at offset 5), right-hand side (at offset 14) and body (at offset 19) each hold a call.
\<close>

definition forin_src :: string where
  "forin_src = ''for (a().b in c()) d()''"

definition forin_node :: node where
  "forin_node =
     Node ''ForInStatement''
       (Some (SourceLocation (Position 1 0) (Position 1 22))) (Some (0, 22))
       [(''left'', at1 ''MemberExpression'' 5 10
           [(''object'', at1 ''CallExpression'' 5 8
               [(''callee'', at1 ''Identifier'' 5 6 [(''name'', VStr ''a'')]),
                (''arguments'', VArr [])]),
            (''property'', at1 ''Identifier'' 9 10 [(''name'', VStr ''b'')]),
            (''computed'', VBool False)]),
        (''right'', at1 ''CallExpression'' 14 17
           [(''callee'', at1 ''Identifier'' 14 15 [(''name'', VStr ''c'')]),
            (''arguments'', VArr [])]),
        (''body'', at1 ''ExpressionStatement'' 19 22
           [(''expression'', at1 ''CallExpression'' 19 22
               [(''callee'', at1 ''Identifier'' 19 20 [(''name'', VStr ''d'')]),
                (''arguments'', VArr [])])])]"








chapter \<open>Properties\<close>

section \<open>Evaluating the traversal\<close>

text \<open>
  The defining equations of the traversal rewrite under their own right-hand sides, so
  they leave the simplifier's rules; the equations below unfold one step on a tree whose
  top constructor is known. The tables are looked up once here.
\<close>

declare visitWithoutReset.simps [simp del] visitChildren.simps [simp del]

lemma visitWithoutReset_VObj:
  "visitWithoutReset (NodePath (VObj n)) r =
     (case methodNameTable (ntype n) of
        Some methodName \<Rightarrow>
          invokeVisitorMethod methodName visitChildren visitWithoutReset (NodePath (VObj n)) r
      | None \<Rightarrow> visitChildren (NodePath (VObj n)) r)"
  by (simp add: visitWithoutReset.simps)

lemma visitChildren_VObj:
  "visitChildren (NodePath (VObj n)) r = each (map snd (nfields n)) r"
  by (simp add: visitChildren.simps)

lemma visitChildren_VArr:
  "visitChildren (NodePath (VArr xs)) r = each xs r"
  by (simp add: visitChildren.simps)

lemma visitChildren_leaf:
  "visitChildren (NodePath VUndefined) r = Inr r"
  "visitChildren (NodePath VNull) r = Inr r"
  "visitChildren (NodePath (VBool b)) r = Inr r"
  "visitChildren (NodePath (VNum i)) r = Inr r"
  "visitChildren (NodePath (VStr s)) r = Inr r"
  "visitChildren (NodePath VRegExp) r = Inr r"
  by (simp_all add: visitChildren.simps)

lemma visitWithoutReset_other:
  "visitWithoutReset (NodePath (VArr xs)) r = each xs r"
  "visitWithoutReset (NodePath VUndefined) r = Inr r"
  "visitWithoutReset (NodePath VNull) r = Inr r"
  "visitWithoutReset (NodePath (VBool b)) r = Inr r"
  "visitWithoutReset (NodePath (VNum i)) r = Inr r"
  "visitWithoutReset (NodePath (VStr s)) r = Inr r"
  "visitWithoutReset (NodePath VRegExp) r = Inr r"
  by (simp_all add: visitWithoutReset.simps visitChildren.simps)

lemmas walk_simps = visitWithoutReset_VObj visitChildren_VObj visitChildren_VArr
  visitChildren_leaf visitWithoutReset_other

lemma TOKENS_REVERSE_eq:
  "TOKENS_REVERSE =
    [(2, ''FOR_BEGIN''),
     (3, ''FOR_END''),
     (4, ''FUNCTION_BEGIN''),
     (5, ''FUNCTION_END''),
     (6, ''BREAK''),
     (7, ''APPLY''),
     (8, ''IF_BEGIN''),
     (9, ''IF_END''),
     (10, ''ELSE''),
     (11, ''CONTINUE''),
     (12, ''CLASS_BEGIN''),
     (13, ''CLASS_END''),
     (14, ''IN_CLASS_BEGIN''),
     (15, ''IN_CLASS_END''),
     (16, ''WITH_BEGIN''),
     (17, ''WITH_END''),
     (18, ''SWITCH_BEGIN''),
     (19, ''SWITCH_END''),
     (20, ''CASE''),
     (21, ''RETURN''),
     (22, ''THROW''),
     (23, ''TRY''),
     (24, ''CATCH_BEGIN''),
     (25, ''CATCH_END''),
     (26, ''WHILE_BEGIN''),
     (27, ''WHILE_END''),
     (28, ''DO_WHILE_BEGIN''),
     (29, ''DO_WHILE_END''),
     (30, ''ASSIGN''),
     (31, ''ARRAY_BEGIN''),
     (32, ''ARRAY_END''),
     (33, ''OBJECT_BEGIN''),
     (34, ''OBJECT_END''),
     (35, ''TERNARY''),
     (36, ''YIELD''),
     (37, ''GEN_EXPR_BEGIN''),
     (38, ''GEN_EXPR_END''),
     (39, ''ARRAY_COMP_BEGIN''),
     (40, ''ARRAY_COMP_END''),
     (41, ''IMPORT''),
     (42, ''AWAIT''),
     (43, ''DECORATOR''),
     (44, ''EXPORT'')]"
  by (simp add: TOKENS_REVERSE_def TOKENS_def)

lemma T_simps:
  "T ''FOR_BEGIN'' = Some 2"
  "T ''FOR_END'' = Some 3"
  "T ''FUNCTION_BEGIN'' = Some 4"
  "T ''FUNCTION_END'' = Some 5"
  "T ''BREAK'' = Some 6"
  "T ''APPLY'' = Some 7"
  "T ''IF_BEGIN'' = Some 8"
  "T ''IF_END'' = Some 9"
  "T ''ELSE'' = Some 10"
  "T ''CONTINUE'' = Some 11"
  "T ''CLASS_BEGIN'' = Some 12"
  "T ''CLASS_END'' = Some 13"
  "T ''IN_CLASS_BEGIN'' = Some 14"
  "T ''IN_CLASS_END'' = Some 15"
  "T ''WITH_BEGIN'' = Some 16"
  "T ''WITH_END'' = Some 17"
  "T ''SWITCH_BEGIN'' = Some 18"
  "T ''SWITCH_END'' = Some 19"
  "T ''CASE'' = Some 20"
  "T ''RETURN'' = Some 21"
  "T ''THROW'' = Some 22"
  "T ''TRY'' = Some 23"
  "T ''CATCH_BEGIN'' = Some 24"
  "T ''CATCH_END'' = Some 25"
  "T ''WHILE_BEGIN'' = Some 26"
  "T ''WHILE_END'' = Some 27"
  "T ''DO_WHILE_BEGIN'' = Some 28"
  "T ''DO_WHILE_END'' = Some 29"
  "T ''ASSIGN'' = Some 30"
  "T ''ARRAY_BEGIN'' = Some 31"
  "T ''ARRAY_END'' = Some 32"
  "T ''OBJECT_BEGIN'' = Some 33"
  "T ''OBJECT_END'' = Some 34"
  "T ''TERNARY'' = Some 35"
  "T ''YIELD'' = Some 36"
  "T ''GEN_EXPR_BEGIN'' = Some 37"
  "T ''GEN_EXPR_END'' = Some 38"
  "T ''ARRAY_COMP_BEGIN'' = Some 39"
  "T ''ARRAY_COMP_END'' = Some 40"
  "T ''IMPORT'' = Some 41"
  "T ''AWAIT'' = Some 42"
  "T ''DECORATOR'' = Some 43"
  "T ''EXPORT'' = Some 44"
  by (simp_all add: T_def TOKENS_def)

lemma key_simps:
  "map_of TOKENS_REVERSE 2 = Some ''FOR_BEGIN''"
  "map_of TOKENS_REVERSE 3 = Some ''FOR_END''"
  "map_of TOKENS_REVERSE 4 = Some ''FUNCTION_BEGIN''"
  "map_of TOKENS_REVERSE 5 = Some ''FUNCTION_END''"
  "map_of TOKENS_REVERSE 6 = Some ''BREAK''"
  "map_of TOKENS_REVERSE 7 = Some ''APPLY''"
  "map_of TOKENS_REVERSE 8 = Some ''IF_BEGIN''"
  "map_of TOKENS_REVERSE 9 = Some ''IF_END''"
  "map_of TOKENS_REVERSE 10 = Some ''ELSE''"
  "map_of TOKENS_REVERSE 11 = Some ''CONTINUE''"
  "map_of TOKENS_REVERSE 12 = Some ''CLASS_BEGIN''"
  "map_of TOKENS_REVERSE 13 = Some ''CLASS_END''"
  "map_of TOKENS_REVERSE 14 = Some ''IN_CLASS_BEGIN''"
  "map_of TOKENS_REVERSE 15 = Some ''IN_CLASS_END''"
  "map_of TOKENS_REVERSE 16 = Some ''WITH_BEGIN''"
  "map_of TOKENS_REVERSE 17 = Some ''WITH_END''"
  "map_of TOKENS_REVERSE 18 = Some ''SWITCH_BEGIN''"
  "map_of TOKENS_REVERSE 19 = Some ''SWITCH_END''"
  "map_of TOKENS_REVERSE 20 = Some ''CASE''"
  "map_of TOKENS_REVERSE 21 = Some ''RETURN''"
  "map_of TOKENS_REVERSE 22 = Some ''THROW''"
  "map_of TOKENS_REVERSE 23 = Some ''TRY''"
  "map_of TOKENS_REVERSE 24 = Some ''CATCH_BEGIN''"
  "map_of TOKENS_REVERSE 25 = Some ''CATCH_END''"
  "map_of TOKENS_REVERSE 26 = Some ''WHILE_BEGIN''"
  "map_of TOKENS_REVERSE 27 = Some ''WHILE_END''"
  "map_of TOKENS_REVERSE 28 = Some ''DO_WHILE_BEGIN''"
  "map_of TOKENS_REVERSE 29 = Some ''DO_WHILE_END''"
  "map_of TOKENS_REVERSE 30 = Some ''ASSIGN''"
  "map_of TOKENS_REVERSE 31 = Some ''ARRAY_BEGIN''"
  "map_of TOKENS_REVERSE 32 = Some ''ARRAY_END''"
  "map_of TOKENS_REVERSE 33 = Some ''OBJECT_BEGIN''"
  "map_of TOKENS_REVERSE 34 = Some ''OBJECT_END''"
  "map_of TOKENS_REVERSE 35 = Some ''TERNARY''"
  "map_of TOKENS_REVERSE 36 = Some ''YIELD''"
  "map_of TOKENS_REVERSE 37 = Some ''GEN_EXPR_BEGIN''"
  "map_of TOKENS_REVERSE 38 = Some ''GEN_EXPR_END''"
  "map_of TOKENS_REVERSE 39 = Some ''ARRAY_COMP_BEGIN''"
  "map_of TOKENS_REVERSE 40 = Some ''ARRAY_COMP_END''"
  "map_of TOKENS_REVERSE 41 = Some ''IMPORT''"
  "map_of TOKENS_REVERSE 42 = Some ''AWAIT''"
  "map_of TOKENS_REVERSE 43 = Some ''DECORATOR''"
  "map_of TOKENS_REVERSE 44 = Some ''EXPORT''"
  by (simp_all add: TOKENS_REVERSE_eq)

lemma invoke_simps:
  "invokeVisitorMethod ''visitForStatement'' = wrapped visitForStatement"
  "invokeVisitorMethod ''visitFunction'' = wrapped visitFunction"
  "invokeVisitorMethod ''visitBreakStatement'' = wrapped visitBreakStatement"
  "invokeVisitorMethod ''visitContinueStatement'' = wrapped visitContinueStatement"
  "invokeVisitorMethod ''visitCallExpression'' = wrapped visitCallExpression"
  "invokeVisitorMethod ''visitIfStatement'' = wrapped visitIfStatement"
  "invokeVisitorMethod ''visitClassDeclaration'' = wrapped visitClassDeclaration"
  "invokeVisitorMethod ''visitClassExpression'' = wrapped visitClassExpression"
  "invokeVisitorMethod ''visitWithStatement'' = wrapped visitWithStatement"
  "invokeVisitorMethod ''visitSwitchStatement'' = wrapped visitSwitchStatement"
  "invokeVisitorMethod ''visitSwitchCase'' = wrapped visitSwitchCase"
  "invokeVisitorMethod ''visitReturnStatement'' = wrapped visitReturnStatement"
  "invokeVisitorMethod ''visitThrowStatement'' = wrapped visitThrowStatement"
  "invokeVisitorMethod ''visitTryStatement'' = wrapped visitTryStatement"
  "invokeVisitorMethod ''visitCatchClause'' = wrapped visitCatchClause"
  "invokeVisitorMethod ''visitWhileStatement'' = wrapped visitWhileStatement"
  "invokeVisitorMethod ''visitDoWhileStatement'' = wrapped visitDoWhileStatement"
  "invokeVisitorMethod ''visitForOfStatement'' = wrapped visitForOfStatement"
  "invokeVisitorMethod ''visitForInStatement'' = wrapped visitForInStatement"
  "invokeVisitorMethod ''visitVariableDeclarator'' = wrapped visitVariableDeclarator"
  "invokeVisitorMethod ''visitArrayExpression'' = wrapped visitArrayExpression"
  "invokeVisitorMethod ''visitObjectExpression'' = wrapped visitObjectExpression"
  "invokeVisitorMethod ''visitAssignmentExpression'' = wrapped visitAssignmentExpression"
  "invokeVisitorMethod ''visitUpdateExpression'' = wrapped visitUpdateExpression"
  "invokeVisitorMethod ''visitConditionalExpression'' = wrapped visitConditionalExpression"
  "invokeVisitorMethod ''visitYieldExpression'' = wrapped visitYieldExpression"
  "invokeVisitorMethod ''visitGeneratorExpression'' = wrapped visitGeneratorExpression"
  "invokeVisitorMethod ''visitComprehensionExpression'' = wrapped visitComprehensionExpression"
  "invokeVisitorMethod ''visitImportDeclaration'' = wrapped visitImportDeclaration"
  "invokeVisitorMethod ''visitImportExpression'' = wrapped visitImportExpression"
  "invokeVisitorMethod ''visitAwaitExpression'' = wrapped visitAwaitExpression"
  "invokeVisitorMethod ''visitDecorator'' = wrapped visitDecorator"
  "invokeVisitorMethod ''visitExportNamedDeclaration'' = wrapped visitExportNamedDeclaration"
  "invokeVisitorMethod ''visitExportDefaultDeclaration'' = wrapped visitExportDefaultDeclaration"
  "invokeVisitorMethod ''visitExportAllDeclaration'' = wrapped visitExportAllDeclaration"
  by (rule ext, rule ext, rule ext, rule ext,
      simp add: invokeVisitorMethod_def makeTraverser_def visitor_methods_def)+

lemma methodName_simps:
  "methodNameTable ''ForStatement'' = Some ''visitForStatement''"
  "methodNameTable ''Function'' = Some ''visitFunction''"
  "methodNameTable ''BreakStatement'' = Some ''visitBreakStatement''"
  "methodNameTable ''ContinueStatement'' = Some ''visitContinueStatement''"
  "methodNameTable ''CallExpression'' = Some ''visitCallExpression''"
  "methodNameTable ''IfStatement'' = Some ''visitIfStatement''"
  "methodNameTable ''ClassDeclaration'' = Some ''visitClassDeclaration''"
  "methodNameTable ''ClassExpression'' = Some ''visitClassExpression''"
  "methodNameTable ''WithStatement'' = Some ''visitWithStatement''"
  "methodNameTable ''SwitchStatement'' = Some ''visitSwitchStatement''"
  "methodNameTable ''SwitchCase'' = Some ''visitSwitchCase''"
  "methodNameTable ''ReturnStatement'' = Some ''visitReturnStatement''"
  "methodNameTable ''ThrowStatement'' = Some ''visitThrowStatement''"
  "methodNameTable ''TryStatement'' = Some ''visitTryStatement''"
  "methodNameTable ''CatchClause'' = Some ''visitCatchClause''"
  "methodNameTable ''WhileStatement'' = Some ''visitWhileStatement''"
  "methodNameTable ''DoWhileStatement'' = Some ''visitDoWhileStatement''"
  "methodNameTable ''ForOfStatement'' = Some ''visitForOfStatement''"
  "methodNameTable ''ForInStatement'' = Some ''visitForInStatement''"
  "methodNameTable ''VariableDeclarator'' = Some ''visitVariableDeclarator''"
  "methodNameTable ''ArrayExpression'' = Some ''visitArrayExpression''"
  "methodNameTable ''ObjectExpression'' = Some ''visitObjectExpression''"
  "methodNameTable ''AssignmentExpression'' = Some ''visitAssignmentExpression''"
  "methodNameTable ''UpdateExpression'' = Some ''visitUpdateExpression''"
  "methodNameTable ''ConditionalExpression'' = Some ''visitConditionalExpression''"
  "methodNameTable ''YieldExpression'' = Some ''visitYieldExpression''"
  "methodNameTable ''GeneratorExpression'' = Some ''visitGeneratorExpression''"
  "methodNameTable ''ComprehensionExpression'' = Some ''visitComprehensionExpression''"
  "methodNameTable ''ImportDeclaration'' = Some ''visitImportDeclaration''"
  "methodNameTable ''ImportExpression'' = Some ''visitImportExpression''"
  "methodNameTable ''AwaitExpression'' = Some ''visitAwaitExpression''"
  "methodNameTable ''Decorator'' = Some ''visitDecorator''"
  "methodNameTable ''ExportNamedDeclaration'' = Some ''visitExportNamedDeclaration''"
  "methodNameTable ''ExportDefaultDeclaration'' = Some ''visitExportDefaultDeclaration''"
  "methodNameTable ''ExportAllDeclaration'' = Some ''visitExportAllDeclaration''"
  by (simp_all add: methodNameTable_def makeTraverser_def visitor_methods_def)

section \<open>Where the tokens of a tree come from\<close>

lemma subvalues_trans:
  assumes "x \<in> subvalues w" "w \<in> subvalues v"
  shows "x \<in> subvalues v"
  using assms by (induction rule: subvalues.induct) (auto intro: subvalues.intros)

lemma subvalues_leaf:
  assumes "x \<in> subvalues v" "\<And>n. v \<noteq> VObj n" "\<And>xs. v \<noteq> VArr xs"
  shows "x = v"
  using assms by (induction rule: subvalues.induct) auto

lemma subvalues_get:
  assumes "VObj x \<in> subvalues (get c name)"
  shows "VObj x \<in> subvalues (VObj c)"
proof (cases "map_of (nfields c) name")
  case None
  then have "get c name = VStr (ntype c) \<or> get c name = VUndefined"
    by (simp add: get_def)
  with subvalues_leaf[OF assms] show ?thesis by auto
next
  case (Some w)
  show ?thesis
  proof (cases "name = ''type''")
    case True
    then have "get c name = VStr (ntype c)" by (simp add: get_def)
    with subvalues_leaf[OF assms] show ?thesis by auto
  next
    case False
    from Some have "(name, w) \<in> set (nfields c)" by (rule map_of_SomeD)
    then have "w \<in> subvalues (VObj c)"
      by (rule subvalues.field[OF subvalues.root])
    moreover from Some False assms have "VObj x \<in> subvalues w" by (simp add: get_def)
    ultimately show ?thesis by (rule subvalues_trans[rotated])
  qed
qed

lemma from_tree_get: "from_tree (get c name) t \<Longrightarrow> from_tree (VObj c) t"
  by (auto simp: from_tree_def dest: subvalues_get)

lemma adds_mono: "adds Q f \<Longrightarrow> (\<And>t. Q t \<Longrightarrow> Q' t) \<Longrightarrow> adds Q' f"
  unfolding adds_def list_all_iff by blast

lemma adds_s_bind_arg: "(\<And>x. e = Inr x \<Longrightarrow> adds_s Q (f x)) \<Longrightarrow> adds_s Q (bind_arg e f)"
  by (cases e) (auto simp: adds_s_def bind_arg_def)

lemma adds_s_js_if: "(b \<Longrightarrow> adds_s Q c) \<Longrightarrow> adds_s Q (js_if b c)"
  by (auto simp: adds_s_def js_if_def)

lemma adds_s_if: "(b \<Longrightarrow> adds_s Q c) \<Longrightarrow> (\<not> b \<Longrightarrow> adds_s Q d) \<Longrightarrow> adds_s Q (if b then c else d)"
  by simp

lemma adds_s_callback: "adds Q (w p) \<Longrightarrow> adds_s Q (callback w p)"
  by (auto simp: adds_s_def adds_def callback_def split: sum.splits)

lemma adds_r_returning: "adds_s Q c \<Longrightarrow> adds_r Q (returning v c)"
  by (auto simp: adds_s_def adds_r_def returning_def split: sum.splits)

lemma adds_wrapped:
  assumes "adds_r Q (f tr vi path (callback tr) (callback vi))" "adds Q (tr path)"
  shows "adds Q (wrapped f tr vi path)"
  unfolding adds_def
proof (intro allI impI)
  fix r r' assume w: "wrapped f tr vi path r = Inr r'"
  then obtain v s where 1: "f tr vi path (callback tr) (callback vi) \<lparr>res = r, traversed = False\<rparr> = Inr (v, s)"
    and 2: "(if \<not> traversed s \<and> \<not> truthy v then tr path (res s) else Inr (res s)) = Inr r'"
    by (auto simp: wrapped_def split: sum.splits prod.splits)
  from assms(1) 1 obtain n1 where n1: "res s = r @ n1" "list_all Q n1"
    unfolding adds_r_def by fastforce
  show "\<exists>new. r' = r @ new \<and> list_all Q new"
  proof (cases "\<not> traversed s \<and> \<not> truthy v")
    case True
    with 2 have "tr path (res s) = Inr r'" by simp
    with assms(2) obtain n2 where "r' = res s @ n2" "list_all Q n2"
      unfolding adds_def by blast
    with n1 have "r' = r @ (n1 @ n2) \<and> list_all Q (n1 @ n2)" by simp
    then show ?thesis by blast
  next
    case False
    with 2 n1 show ?thesis by auto
  qed
qed

lemma emit_Inr:
  assumes "emit tok a len s = Inr s'"
  shows "\<exists>tk n l. tok = Some tk \<and> 0 < len \<and> value_or a = Inr (ANode (VObj n)) \<and>
           nloc n = Some l \<and>
           s' = s\<lparr>res := res s @
             [\<lparr>key = map_of TOKENS_REVERSE tk, value_t = tk,
               line = pos_line (loc_start l), column = pos_column (loc_start l),
               length_t = len\<rparr>]\<rparr>"
  using assms
  by (auto simp: emit_def loc_of_def
      split: if_splits sum.splits option.splits arg.splits jsval.splits)

lemma emitEnd_Inr:
  assumes "emitEnd tok a surplus s = Inr s'"
  shows "\<exists>tk k n l. tok = Some tk \<and> value_or a = Inr (ANode (VObj n)) \<and>
           map_of TOKENS_REVERSE tk = Some k \<and> endsWith k ''END'' \<and> nloc n = Some l \<and>
           s' = s\<lparr>res := res s @
             [\<lparr>key = Some k, value_t = tk,
               line = pos_line (loc_end l), column = max (pos_column (loc_end l) - 1) 0,
               length_t = 1\<rparr>]\<rparr>"
  using assms
  by (auto simp: emitEnd_def loc_of_def
      split: if_splits sum.splits option.splits arg.splits jsval.splits)

lemma from_treeI: "VObj c \<in> subvalues v \<Longrightarrow> tok_of c t \<Longrightarrow> from_tree v t"
  by (auto simp: from_tree_def)

lemma emit_adds:
  assumes "map_of TOKENS_REVERSE tk = Some k" "\<not> endsWith k ''END''"
  shows "adds_s (from_tree (VObj c)) (emit (Some tk) a len)"
  unfolding adds_s_def
proof (intro allI impI)
  fix s s' assume "emit (Some tk) a len s = Inr s'"
  from emit_Inr[OF this] assms obtain t where
    "res s' = res s @ [t]" "key t = Some k" "0 < length_t t"
    by auto
  moreover from this assms(2) have "tok_of c t" by (auto simp: tok_of_def)
  then have "from_tree (VObj c) t" by (rule from_treeI[OF subvalues.root])
  ultimately show "\<exists>new. res s' = res s @ new \<and> list_all (from_tree (VObj c)) new"
    by (intro exI[of _ "[t]"]) simp
qed

lemma emitEnd_adds:
  assumes a: "value_or a = Inr (ANode (end_anchor c))"
    and k: "map_of TOKENS_REVERSE tk = Some k" "closing_kind (ntype c) = Some k"
  shows "adds_s (from_tree (VObj c)) (emitEnd (Some tk) a surplus)"
  unfolding adds_s_def
proof (intro allI impI)
  fix s s' assume "emitEnd (Some tk) a surplus s = Inr s'"
  from emitEnd_Inr[OF this] a k obtain t n l where
    t: "res s' = res s @ [t]" "key t = Some k" "endsWith k ''END''" "length_t t = 1"
      "end_anchor c = VObj n" "nloc n = Some l" "line t = pos_line (loc_end l)"
      "column t = max (pos_column (loc_end l) - 1) 0"
    by auto
  with k have "tok_of c t" unfolding tok_of_def by blast
  then have "from_tree (VObj c) t" by (rule from_treeI[OF subvalues.root])
  with t(1) show "\<exists>new. res s' = res s @ new \<and> list_all (from_tree (VObj c)) new"
    by (intro exI[of _ "[t]"]) simp
qed

lemma value_or_path:
  "pvalue path = VObj c \<Longrightarrow> ntype c \<noteq> ''IfStatement'' \<Longrightarrow>
   value_or (APath path) = Inr (ANode (end_anchor c))"
  by (simp add: value_or_def end_anchor_def)

lemma value_or_if:
  "ntype c = ''IfStatement'' \<Longrightarrow> value_or (ANode (VObj c)) = Inr (ANode (end_anchor c))"
  by (simp add: value_or_def end_anchor_def member_def)

lemma adds_s_block_Nil: "adds_s Q (block [])"
  by (simp add: adds_s_def)

lemma adds_s_block_Cons: "adds_s Q c \<Longrightarrow> adds_s Q (block cs) \<Longrightarrow> adds_s Q (block (c # cs))"
proof -
  assume c: "adds_s Q c" and cs: "adds_s Q (block cs)"
  show ?thesis
    unfolding adds_s_def
  proof (intro allI impI)
    fix s s' assume "block (c # cs) s = Inr s'"
    then obtain s1 where 1: "c s = Inr s1" and 2: "block cs s1 = Inr s'"
      by (auto split: sum.splits)
    from c 1 obtain n1 where n1: "res s1 = res s @ n1" "list_all Q n1"
      unfolding adds_s_def by blast
    from cs 2 obtain n2 where n2: "res s' = res s1 @ n2" "list_all Q n2"
      unfolding adds_s_def by blast
    from n1 n2 have "res s' = res s @ (n1 @ n2) \<and> list_all Q (n1 @ n2)" by simp
    then show "\<exists>new. res s' = res s @ new \<and> list_all Q new" by blast
  qed
qed

lemma emit_adds':
  assumes "case map_of TOKENS_REVERSE tk of None \<Rightarrow> False | Some k \<Rightarrow> \<not> endsWith k ''END''"
  shows "adds_s (from_tree (VObj c)) (emit (Some tk) a len)"
  using assms emit_adds by (auto split: option.splits)

lemma emitEnd_adds':
  assumes "value_or a = Inr (ANode (end_anchor c))"
    "map_of TOKENS_REVERSE tk = closing_kind (ntype c)"
  shows "adds_s (from_tree (VObj c)) (emitEnd (Some tk) a surplus)"
proof (cases "closing_kind (ntype c)")
  case None
  with assms(2) show ?thesis by (simp add: adds_s_def emitEnd_def split: sum.splits)
next
  case (Some k)
  with assms show ?thesis by (intro emitEnd_adds) auto
qed

lemma methodNameTable_Some:
  assumes "methodNameTable t = Some m"
  shows "m = ''visit'' @ t \<or> (m = ''visitFunction'' \<and> t \<in> set function_types)"
  using assms by (auto simp: methodNameTable_def split: if_splits)

lemma adds_s_res_update:
  assumes "adds Q w"
  shows "adds_s Q (\<lambda>s. case w (res s) of Inl e \<Rightarrow> Inl e | Inr r \<Rightarrow> Inr (s\<lparr>res := r\<rparr>))"
  using assms by (auto simp: adds_s_def adds_def split: sum.splits)

lemma method_adds:
  assumes pv: "pvalue path = VObj c" and mn: "methodNameTable (ntype c) = Some m"
    and f: "(m, f) \<in> set visitor_methods"
    and tr: "adds (from_tree (VObj c)) (tr path)"
    and vi: "\<And>name. adds (from_tree (VObj c)) (vi (pget path name))"
  shows "adds_r (from_tree (VObj c)) (f tr vi path (callback tr) (callback vi))"
proof -
  have ck: "closing_kind (ntype c) = map_of end_table m"
    using mn by (simp add: closing_kind_def)
  have ty: "ntype c = ''IfStatement'' \<longleftrightarrow> m = ''visitIfStatement''"
    using methodNameTable_Some[OF mn] mn
    by (auto simp: function_types_def methodNameTable_def makeTraverser_def visitor_methods_def)
  note cb = adds_s_callback[of _ tr path, OF tr] adds_s_callback[of _ vi "pget path name" for name, OF vi]
  note intros = adds_r_returning adds_s_block_Cons adds_s_block_Nil adds_s_bind_arg
    adds_s_js_if adds_s_if cb emit_adds' emitEnd_adds'
  have forof: "adds_r (from_tree (VObj c)) (visitForOfStatement tr vi path (callback tr) (callback vi))"
    if "m = ''visitForOfStatement'' \<or> m = ''visitForInStatement''"
    using that
    apply (simp only: visitForOfStatement_def T_simps)
    apply (intro intros)
    apply (auto simp: key_simps endsWith_def ck end_table_def value_or_path pv ty)
    done
  have forin: "adds_s (from_tree (VObj c))
      (\<lambda>s. case wrapped visitForOfStatement tr vi path (res s) of
             Inl e \<Rightarrow> Inl e | Inr r \<Rightarrow> Inr (s\<lparr>res := r\<rparr>))"
    if "m = ''visitForInStatement''"
    using that
    by (intro adds_s_res_update
          adds_wrapped[where f = visitForOfStatement and tr = tr and vi = vi and path = path]
          forof tr) simp
  show ?thesis
    using f
    apply (simp add: visitor_methods_def)
    apply (elim disjE conjE)
    apply (simp_all only: visitor_method_defs T_simps Let_def)
    apply (intro intros forin; simp add: key_simps endsWith_def ck end_table_def value_or_path value_or_if pv ty)+
    done
qed

lemma invoke_adds:
  assumes pv: "pvalue path = VObj c" and mn: "methodNameTable (ntype c) = Some m"
    and tr: "adds (from_tree (VObj c)) (tr path)"
    and vi: "\<And>name. adds (from_tree (VObj c)) (vi (pget path name))"
  shows "adds (from_tree (VObj c)) (invokeVisitorMethod m tr vi path)"
proof (cases "map_of (makeTraverser visitor_methods) m")
  case None
  then show ?thesis by (simp add: adds_def invokeVisitorMethod_def)
next
  case (Some g)
  then obtain f where f: "(m, f) \<in> set visitor_methods" "g = wrapped f"
    by (auto simp: makeTraverser_def dest!: map_of_SomeD)
  have "adds (from_tree (VObj c)) (wrapped f tr vi path)"
    by (rule adds_wrapped[where f = f and tr = tr and vi = vi and path = path,
          OF method_adds[where tr = tr and vi = vi, OF pv mn f(1) tr vi] tr])
  moreover have "invokeVisitorMethod m tr vi path = wrapped f tr vi path"
    using Some f(2) by (intro ext) (simp add: invokeVisitorMethod_def)
  ultimately show ?thesis by simp
qed

lemma from_tree_field:
  "(k, w) \<in> set (nfields n) \<Longrightarrow> from_tree w t \<Longrightarrow> from_tree (VObj n) t"
  unfolding from_tree_def
  by (meson subvalues.field subvalues.root subvalues_trans)

lemma from_tree_element: "w \<in> set xs \<Longrightarrow> from_tree w t \<Longrightarrow> from_tree (VArr xs) t"
  unfolding from_tree_def
  by (meson subvalues.element subvalues.root subvalues_trans)

lemma walk_adds:
  "\<forall>r'. visitWithoutReset path r = Inr r' \<longrightarrow>
     (\<exists>new. r' = r @ new \<and> list_all (from_tree (pvalue path)) new)"
  "\<forall>r'. visitChildren path r = Inr r' \<longrightarrow>
     (\<exists>new. r' = r @ new \<and> list_all (from_tree (pvalue path)) new)"
  "\<forall>r'. each xs r = Inr r' \<longrightarrow>
     (\<exists>new. r' = r @ new \<and> list_all (\<lambda>t. \<exists>x\<in>set xs. from_tree x t) new)"
proof (induction path r and path r and xs r rule: visitWithoutReset_visitChildren_each.induct)
  case (1 path res0)
  show ?case
  proof (cases "pvalue path")
    case (VObj n)
    show ?thesis
    proof (cases "methodNameTable (ntype n)")
      case None
      with VObj "1.IH"(7)[OF VObj None] show ?thesis by (simp add: visitWithoutReset.simps[of path])
    next
      case (Some m)
      have tr: "adds (from_tree (VObj n)) (visitChildren path)"
        using "1.IH"(8)[OF VObj Some] VObj unfolding adds_def by simp
      have vi: "adds (from_tree (VObj n)) (visitWithoutReset (pget path name))" for name
      proof -
        have "adds (from_tree (pvalue (pget path name))) (visitWithoutReset (pget path name))"
          using "1.IH"(9)[OF VObj Some] unfolding adds_def by simp
        then show ?thesis
          by (rule adds_mono) (auto simp: pget_def VObj intro: from_tree_get)
      qed
      from invoke_adds[where tr = visitChildren and vi = visitWithoutReset, OF VObj Some tr vi]
        VObj Some show ?thesis
        by (simp add: visitWithoutReset.simps[of path] adds_def)
    qed
  qed (use "1.IH" in \<open>simp_all add: visitWithoutReset.simps[of path]\<close>)
next
  case (2 path res0)
  show ?case
  proof (cases "pvalue path")
    case (VObj n)
    show ?thesis
    proof (intro allI impI)
      fix r' assume "visitChildren path res0 = Inr r'"
      with VObj have "each (map snd (nfields n)) res0 = Inr r'"
        by (simp add: visitChildren.simps[of path])
      with "2.IH"(1)[OF VObj] obtain new where
        new: "r' = res0 @ new" "list_all (\<lambda>t. \<exists>x\<in>set (map snd (nfields n)). from_tree x t) new"
        by blast
      from new(2) have "list_all (from_tree (VObj n)) new"
        unfolding list_all_iff by (fastforce intro: from_tree_field[of _ _ n])
      with new(1) VObj show "\<exists>new. r' = res0 @ new \<and> list_all (from_tree (pvalue path)) new"
        by auto
    qed
  next
    case (VArr xs)
    show ?thesis
    proof (intro allI impI)
      fix r' assume "visitChildren path res0 = Inr r'"
      with VArr have "each xs res0 = Inr r'"
        by (simp add: visitChildren.simps[of path])
      with "2.IH"(2)[OF VArr] obtain new where
        new: "r' = res0 @ new" "list_all (\<lambda>t. \<exists>x\<in>set xs. from_tree x t) new"
        by blast
      from new(2) have "list_all (from_tree (VArr xs)) new"
        unfolding list_all_iff by (auto intro: from_tree_element)
      with new(1) VArr show "\<exists>new. r' = res0 @ new \<and> list_all (from_tree (pvalue path)) new"
        by auto
    qed
  qed (simp_all add: visitChildren.simps[of path])
next
  case (3 res0)
  show ?case by simp
next
  case (4 x xs res0)
  show ?case
  proof (intro allI impI)
    fix r' assume "each (x # xs) res0 = Inr r'"
    then obtain b where b: "visitWithoutReset (NodePath x) res0 = Inr b" "each xs b = Inr r'"
      by (auto split: sum.splits)
    from "4.IH"(1) b(1) obtain n1 where n1: "b = res0 @ n1" "list_all (from_tree x) n1"
      by auto
    from "4.IH"(2)[OF b(1)] b(2) obtain n2 where
      n2: "r' = b @ n2" "list_all (\<lambda>t. \<exists>x\<in>set xs. from_tree x t) n2"
      by blast
    from n1 n2 have "r' = res0 @ (n1 @ n2) \<and>
        list_all (\<lambda>t. \<exists>y\<in>set (x # xs). from_tree y t) (n1 @ n2)"
      unfolding list_all_iff by auto
    then show "\<exists>new. r' = res0 @ new \<and> list_all (\<lambda>t. \<exists>y\<in>set (x # xs). from_tree y t) new"
      by blast
  qed
qed

lemma ASTToTokens_from_tree:
  assumes "ASTToTokens ast = Inr r"
  shows "list_all (from_tree ast) r"
  using walk_adds(1)[of "NodePath ast" "[]"] assms by (auto simp: ASTToTokens_def)

section \<open>The sort of \<^verbatim>\<open>doParse\<close>\<close>

lemma compareFn_le: "compareFn a b \<le> 0 \<longleftrightarrow> pos_le a b"
  by (auto simp: compareFn_def pos_le_def Let_def)

lemma pos_le_total: "pos_le a b \<or> pos_le b a"
  by (auto simp: pos_le_def)

lemma pos_le_trans: "pos_le a b \<Longrightarrow> pos_le b c \<Longrightarrow> pos_le a c"
  by (auto simp: pos_le_def)

lemma set_insert_by: "set (insert_by cmp x xs) = insert x (set xs)"
  by (induction xs) auto

lemma set_array_sort: "set (array_sort cmp xs) = set xs"
  by (induction xs) (auto simp: array_sort_def set_insert_by)

lemma mset_insert_by: "mset (insert_by cmp x xs) = add_mset x (mset xs)"
  by (induction xs) auto

lemma mset_array_sort: "mset (array_sort cmp xs) = mset xs"
  by (induction xs) (auto simp: array_sort_def mset_insert_by)

lemma sorted_insert_by:
  "sorted_wrt pos_le xs \<Longrightarrow> sorted_wrt pos_le (insert_by compareFn x xs)"
proof (induction xs)
  case Nil
  then show ?case by simp
next
  case (Cons y ys)
  show ?case
  proof (cases "compareFn x y \<le> 0")
    case True
    then have "pos_le x y" by (simp add: compareFn_le)
    with Cons.prems have "\<forall>z\<in>set (y # ys). pos_le x z"
      by (auto intro: pos_le_trans)
    with Cons.prems True show ?thesis by simp
  next
    case False
    then have "pos_le y x" using pos_le_total[of x y] by (simp add: compareFn_le)
    with Cons False show ?thesis by (auto simp: set_insert_by)
  qed
qed

lemma sorted_array_sort: "sorted_wrt pos_le (array_sort compareFn xs)"
proof (induction xs)
  case Nil
  then show ?case by (simp add: array_sort_def)
next
  case (Cons x xs)
  then show ?case using sorted_insert_by[of "array_sort compareFn xs" x]
    by (simp add: array_sort_def)
qed

text \<open>
  Stability: an element is put before the elements at its own position that are already
  there, and these come from later in the array.
\<close>

lemma filter_insert_by:
  assumes "sorted_wrt pos_le xs"
  shows "filter (same_pos l c) (insert_by compareFn x xs) =
         (if same_pos l c x then x # filter (same_pos l c) xs else filter (same_pos l c) xs)"
  using assms
proof (induction xs)
  case Nil
  then show ?case by simp
next
  case (Cons y ys)
  show ?case
  proof (cases "compareFn x y \<le> 0")
    case True
    then show ?thesis by simp
  next
    case False
    then have "\<not> pos_le x y" by (simp add: compareFn_le)
    then have ne: "same_pos l c x \<Longrightarrow> \<not> same_pos l c y"
      by (auto simp: pos_le_def same_pos_def)
    from Cons False ne show ?thesis by auto
  qed
qed

lemma filter_array_sort:
  "filter (same_pos l c) (array_sort compareFn xs) = filter (same_pos l c) xs"
proof (induction xs)
  case Nil
  then show ?case by (simp add: array_sort_def)
next
  case (Cons x xs)
  have "array_sort compareFn (x # xs) = insert_by compareFn x (array_sort compareFn xs)"
    by (simp add: array_sort_def)
  with Cons filter_insert_by[OF sorted_array_sort, of l c x xs] show ?case by simp
qed

section \<open>What \<^verbatim>\<open>doParse\<close> returns\<close>

lemma doParse_Inr:
  assumes "doParse fs strict loose filename = (log, Inr out)"
  shows "\<exists>content ast emitted. fs filename = Some content \<and>
           parseToAst strict loose content = (log, Inr ast) \<and>
           ASTToTokens ast = Inr emitted \<and> out = array_sort compareFn emitted"
  using assms
  by (auto simp: doParse_def split: option.splits prod.splits sum.splits)

lemma doParse_strict:
  assumes "fs filename = Some content" "strict content = Inr ast"
  shows "doParse fs strict loose filename =
     ([], case ASTToTokens ast of Inl e \<Rightarrow> Inl e | Inr r \<Rightarrow> Inr (array_sort compareFn r))"
  using assms by (simp add: doParse_def parseToAst_def split: sum.splits)

lemma tok_of_length: "tok_of c t \<Longrightarrow> 1 \<le> length_t t"
  by (auto simp: tok_of_def)

section \<open>Running the scenarios\<close>

lemma methodName_other:
  "methodNameTable ''Program'' = None"
  "methodNameTable ''VariableDeclaration'' = None"
  "methodNameTable ''Identifier'' = None"
  "methodNameTable ''Literal'' = None"
  "methodNameTable ''BinaryExpression'' = None"
  "methodNameTable ''BlockStatement'' = None"
  "methodNameTable ''ExpressionStatement'' = None"
  "methodNameTable ''MemberExpression'' = None"
  "methodNameTable ''FunctionDeclaration'' = Some ''visitFunction''"
  "methodNameTable ''FunctionExpression'' = Some ''visitFunction''"
  "methodNameTable ''ArrowFunctionExpression'' = Some ''visitFunction''"
  by (simp_all add: methodNameTable_def makeTraverser_def visitor_methods_def function_types_def)

lemmas run_simps = walk_simps methodName_simps methodName_other invoke_simps
  wrapped_def callback_def visitor_method_defs
  bind_arg_def js_if_def returning_def emit_def emitEnd_def T_simps key_simps
  value_or_def loc_of_def arg_nullish_def member_def get_def pget_def
  getLength_def operator_length_def endsWith_def Let_def

lemma scenarioA_emitted: "ASTToTokens scenarioA_ast = Inr scenarioA_tokens"
  by (simp add: ASTToTokens_def scenarioA_ast_def scenarioA_tokens_def at1_def run_simps)

lemma scenarioA_sorted: "array_sort compareFn scenarioA_tokens = scenarioA_tokens"
  by (simp add: array_sort_def scenarioA_tokens_def compareFn_def)

lemma scenarioA_doParse:
  "doParse (single_file ''a.js'' scenarioA_src) (parses_to scenarioA_src scenarioA_ast) loose
     ''a.js'' = ([], Inr scenarioA_tokens)"
  by (simp add: doParse_strict[where content = scenarioA_src and ast = scenarioA_ast]
      single_file_def parses_to_def scenarioA_emitted scenarioA_sorted)

section \<open>Token lengths\<close>

text \<open>
  Claim C8. For every input file, every token of the output has a length of at least 1:
  whenever \<^verbatim>\<open>doParse\<close> returns tokens, each of them has \<^verbatim>\<open>length\<close> \<open>\<ge> 1\<close>.
\<close>

theorem tokens_have_positive_length:
  assumes "doParse fs strict loose filename = (log, Inr out)"
  shows "\<forall>t\<in>set out. 1 \<le> length_t t"
proof -
  from doParse_Inr[OF assms] obtain ast emitted where
    e: "ASTToTokens ast = Inr emitted" "out = array_sort compareFn emitted"
    by blast
  from ASTToTokens_from_tree[OF e(1)] have "\<forall>t\<in>set emitted. from_tree ast t"
    by (simp add: list_all_iff)
  then have "\<forall>t\<in>set emitted. 1 \<le> length_t t"
    by (auto simp: from_tree_def dest: tok_of_length)
  with e(2) show ?thesis by (simp add: set_array_sort)
qed

theorem tokens_have_positive_length_witness:
  "doParse (single_file ''a.js'' scenarioA_src) (parses_to scenarioA_src scenarioA_ast) rejects
     ''a.js'' = ([], Inr scenarioA_tokens) \<and>
   list_all (\<lambda>t. 1 \<le> length_t t) scenarioA_tokens"
  using tokens_have_positive_length[OF scenarioA_doParse[of rejects]] scenarioA_doParse[of rejects]
  by (simp add: list_all_iff)

section \<open>Closing tokens\<close>

lemma doParse_of_ast:
  assumes "fs filename = Some content" "parseToAst strict loose content = (log, Inr ast)"
  shows "doParse fs strict loose filename =
     (log, case ASTToTokens ast of Inl e \<Rightarrow> Inl e | Inr r \<Rightarrow> Inr (array_sort compareFn r))"
  using assms by (simp add: doParse_def split: sum.splits)

lemma end_anchor_plain: "\<not> truthy (get c ''value'') \<Longrightarrow> end_anchor c = VObj c"
  by (simp add: end_anchor_def)

text \<open>
  Claim C3. For every token of the output whose kind name is END-suffixed, the length
  is exactly 1 and the position is the construct's end line with the column
  \<open>max (endColumn - 1) 0\<close>. The construct is a node \<open>c\<close> of the parsed tree whose type
  has the token's kind as its closing kind; the end position is read from \<open>c\<close> itself
  unless \<open>c\<close> carries a truthy \<^verbatim>\<open>value\<close> field.
\<close>

theorem end_tokens_close_their_construct:
  assumes "fs filename = Some content"
    and "parseToAst strict loose content = (log, Inr ast)"
    and "doParse fs strict loose filename = (log, Inr out)"
  shows "\<forall>t\<in>set out. \<forall>k. key t = Some k \<and> endsWith k ''END'' \<longrightarrow>
           length_t t = 1 \<and>
           (\<exists>c n l. VObj c \<in> subvalues ast \<and> closing_kind (ntype c) = Some k \<and>
              end_anchor c = VObj n \<and> (\<not> truthy (get c ''value'') \<longrightarrow> n = c) \<and>
              nloc n = Some l \<and>
              line t = pos_line (loc_end l) \<and>
              column t = max (pos_column (loc_end l) - 1) 0)"
proof (intro ballI allI impI)
  fix t k assume t: "t \<in> set out" and k: "key t = Some k \<and> endsWith k ''END''"
  from assms(3) doParse_of_ast[where fs = fs and filename = filename, OF assms(1,2)]
  obtain emitted where
    e: "ASTToTokens ast = Inr emitted" "out = array_sort compareFn emitted"
    by (auto split: sum.splits)
  from ASTToTokens_from_tree[OF e(1)] t e(2) have "from_tree ast t"
    by (simp add: list_all_iff set_array_sort)
  then obtain c where c: "VObj c \<in> subvalues ast" "tok_of c t"
    by (auto simp: from_tree_def)
  from c(2) k obtain n l where
    n: "closing_kind (ntype c) = Some k" "end_anchor c = VObj n" "nloc n = Some l"
      "length_t t = 1" "line t = pos_line (loc_end l)"
      "column t = max (pos_column (loc_end l) - 1) 0"
    by (auto simp: tok_of_def)
  from n(2) have "\<not> truthy (get c ''value'') \<longrightarrow> n = c"
    by (auto dest: end_anchor_plain)
  with c(1) n show "length_t t = 1 \<and>
           (\<exists>c n l. VObj c \<in> subvalues ast \<and> closing_kind (ntype c) = Some k \<and>
              end_anchor c = VObj n \<and> (\<not> truthy (get c ''value'') \<longrightarrow> n = c) \<and>
              nloc n = Some l \<and>
              line t = pos_line (loc_end l) \<and>
              column t = max (pos_column (loc_end l) - 1) 0)"
    by blast
qed

lemma scenarioA_parse:
  "parseToAst (parses_to scenarioA_src scenarioA_ast) loose scenarioA_src =
     ([], Inr scenarioA_ast)"
  by (simp add: parseToAst_def parses_to_def)

theorem end_tokens_close_their_construct_witness:
  "single_file ''a.js'' scenarioA_src ''a.js'' = Some scenarioA_src \<and>
   parseToAst (parses_to scenarioA_src scenarioA_ast) rejects scenarioA_src =
     ([], Inr scenarioA_ast) \<and>
   doParse (single_file ''a.js'' scenarioA_src) (parses_to scenarioA_src scenarioA_ast) rejects
     ''a.js'' = ([], Inr scenarioA_tokens) \<and>
   (\<exists>c n l. VObj c \<in> subvalues scenarioA_ast \<and>
      closing_kind (ntype c) = Some ''FOR_END'' \<and> end_anchor c = VObj n \<and>
      nloc n = Some l \<and> 1 = pos_line (loc_end l) \<and>
      29 = max (pos_column (loc_end l) - 1) 0)"
proof -
  have f: "single_file ''a.js'' scenarioA_src ''a.js'' = Some scenarioA_src"
    by (simp add: single_file_def)
  note p = scenarioA_parse[of rejects]
  note d = scenarioA_doParse[of rejects]
  let ?t = "\<lparr>key = Some ''FOR_END'', value_t = 3, line = 1, column = 29, length_t = 1\<rparr>"
  have "?t \<in> set scenarioA_tokens" by (simp add: scenarioA_tokens_def)
  moreover have "key ?t = Some ''FOR_END'' \<and> endsWith ''FOR_END'' ''END''"
    by (simp add: endsWith_def)
  ultimately have "\<exists>c n l. VObj c \<in> subvalues scenarioA_ast \<and>
      closing_kind (ntype c) = Some ''FOR_END'' \<and> end_anchor c = VObj n \<and>
      nloc n = Some l \<and> 1 = pos_line (loc_end l) \<and>
      29 = max (pos_column (loc_end l) - 1) 0"
    using end_tokens_close_their_construct[where fs = "single_file ''a.js'' scenarioA_src"
        and filename = "''a.js''", OF f p d]
    by fastforce
  with f p d show ?thesis by blast
qed

section \<open>The order of the output\<close>

text \<open>
  Claim C4. For every input file, the output is non-decreasing in (line, column), and
  tokens at the same (line, column) keep the order in which they were emitted: the
  output is a rearrangement of the emitted tokens, sorted by position, that agrees with
  the emitted sequence on the tokens of every single position.
\<close>

theorem output_sorted_and_stable:
  assumes "fs filename = Some content"
    and "parseToAst strict loose content = (log, Inr ast)"
    and "ASTToTokens ast = Inr emitted"
  shows "\<exists>out. doParse fs strict loose filename = (log, Inr out) \<and>
           sorted_wrt pos_le out \<and> mset out = mset emitted \<and>
           (\<forall>l c. filter (same_pos l c) out = filter (same_pos l c) emitted)"
proof -
  have "doParse fs strict loose filename = (log, Inr (array_sort compareFn emitted))"
    using doParse_of_ast[where fs = fs and filename = filename, OF assms(1,2)] assms(3)
    by simp
  then show ?thesis
    using sorted_array_sort[of emitted] mset_array_sort[of compareFn emitted]
      filter_array_sort[of _ _ emitted]
    by blast
qed

lemma scenarioS_run: "ASTToTokens scenarioS_ast = Inr scenarioS_emitted"
  by (simp add: ASTToTokens_def scenarioS_ast_def scenarioS_emitted_def at1_def run_simps)

lemma scenarioS_sort: "array_sort compareFn scenarioS_emitted = scenarioS_tokens"
  by (simp add: array_sort_def scenarioS_emitted_def scenarioS_tokens_def compareFn_def)

theorem output_sorted_and_stable_witness:
  "single_file ''s.js'' scenarioS_src ''s.js'' = Some scenarioS_src \<and>
   parseToAst (parses_to scenarioS_src scenarioS_ast) rejects scenarioS_src =
     ([], Inr scenarioS_ast) \<and>
   ASTToTokens scenarioS_ast = Inr scenarioS_emitted \<and>
   doParse (single_file ''s.js'' scenarioS_src) (parses_to scenarioS_src scenarioS_ast) rejects
     ''s.js'' = ([], Inr scenarioS_tokens) \<and>
   sorted_wrt pos_le scenarioS_tokens \<and>
   filter (same_pos 1 0) scenarioS_tokens = filter (same_pos 1 0) scenarioS_emitted"
proof -
  have f: "single_file ''s.js'' scenarioS_src ''s.js'' = Some scenarioS_src"
    by (simp add: single_file_def)
  have p: "parseToAst (parses_to scenarioS_src scenarioS_ast) rejects scenarioS_src =
     ([], Inr scenarioS_ast)"
    by (simp add: parseToAst_def parses_to_def)
  have d: "doParse (single_file ''s.js'' scenarioS_src)
      (parses_to scenarioS_src scenarioS_ast) rejects ''s.js'' = ([], Inr scenarioS_tokens)"
    using doParse_of_ast[where fs = "single_file ''s.js'' scenarioS_src"
        and filename = "''s.js''", OF f p]
    by (simp add: scenarioS_run scenarioS_sort)
  from output_sorted_and_stable[where fs = "single_file ''s.js'' scenarioS_src"
      and filename = "''s.js''", OF f p scenarioS_run] d
  have "sorted_wrt pos_le scenarioS_tokens \<and>
      filter (same_pos 1 0) scenarioS_tokens = filter (same_pos 1 0) scenarioS_emitted"
    by auto
  with f p d scenarioS_run show ?thesis by blast
qed

section \<open>Scenario A: a C-style for statement\<close>

text \<open>
  Claim C1, as amended. For the input \<^verbatim>\<open>for (let i = 0; i < 3; i++) {}\<close> the output
  has a FOR_BEGIN token at the \<^verbatim>\<open>for\<close> position (line 1, column 0) with length 3 and a
  FOR_END token at the closing brace (column 29) with length 1; between them the header
  gives two ASSIGN tokens: one for the declarator \<^verbatim>\<open>i = 0\<close> (column 9, the length of
  the name, 1) and one for the update \<^verbatim>\<open>i++\<close> (column 23, the length of the operator,
  2). The for statement itself emits no ASSIGN; \<^verbatim>\<open>visitVariableDeclarator\<close> and
  \<^verbatim>\<open>visitUpdateExpression\<close> fire on the header's children as they do anywhere else.
\<close>

theorem scenarioA_output:
  assumes "fs filename = Some scenarioA_src"
    and "strict scenarioA_src = Inr scenarioA_ast"
  shows "doParse fs strict loose filename =
     ([], Inr
       [\<lparr>key = Some ''FOR_BEGIN'', value_t = 2, line = 1, column = 0, length_t = 3\<rparr>,
        \<lparr>key = Some ''ASSIGN'', value_t = 30, line = 1, column = 9, length_t = 1\<rparr>,
        \<lparr>key = Some ''ASSIGN'', value_t = 30, line = 1, column = 23, length_t = 2\<rparr>,
        \<lparr>key = Some ''FOR_END'', value_t = 3, line = 1, column = 29, length_t = 1\<rparr>])"
  using doParse_strict[where fs = fs and filename = filename and strict = strict, OF assms]
  by (simp add: scenarioA_emitted scenarioA_sorted) (simp add: scenarioA_tokens_def)

theorem scenarioA_output_witness:
  "single_file ''a.js'' scenarioA_src ''a.js'' = Some scenarioA_src \<and>
   parses_to scenarioA_src scenarioA_ast scenarioA_src = Inr scenarioA_ast \<and>
   doParse (single_file ''a.js'' scenarioA_src) (parses_to scenarioA_src scenarioA_ast) rejects
     ''a.js'' =
     ([], Inr
       [\<lparr>key = Some ''FOR_BEGIN'', value_t = 2, line = 1, column = 0, length_t = 3\<rparr>,
        \<lparr>key = Some ''ASSIGN'', value_t = 30, line = 1, column = 9, length_t = 1\<rparr>,
        \<lparr>key = Some ''ASSIGN'', value_t = 30, line = 1, column = 23, length_t = 2\<rparr>,
        \<lparr>key = Some ''FOR_END'', value_t = 3, line = 1, column = 29, length_t = 1\<rparr>])"
proof -
  have f: "single_file ''a.js'' scenarioA_src ''a.js'' = Some scenarioA_src"
    by (simp add: single_file_def)
  have p: "parses_to scenarioA_src scenarioA_ast scenarioA_src = Inr scenarioA_ast"
    by (simp add: parses_to_def)
  from scenarioA_output[where fs = "single_file ''a.js'' scenarioA_src"
      and filename = "''a.js''" and strict = "parses_to scenarioA_src scenarioA_ast", OF f p]
    f p show ?thesis by simp
qed

text \<open>
  The claim as it was stated asks for no ASSIGN token; the output has two.
\<close>

theorem scenarioA_has_assign:
  "map key (projr (snd (doParse (single_file ''a.js'' scenarioA_src)
      (parses_to scenarioA_src scenarioA_ast) rejects ''a.js''))) =
     [Some ''FOR_BEGIN'', Some ''ASSIGN'', Some ''ASSIGN'', Some ''FOR_END'']"
  by (simp add: scenarioA_doParse scenarioA_tokens_def)

section \<open>Scenario C: an if statement with an else branch\<close>

lemma scenarioC_emitted: "ASTToTokens scenarioC_ast = Inr scenarioC_tokens"
  by (simp add: ASTToTokens_def scenarioC_ast_def scenarioC_tokens_def at1_def run_simps)

lemma scenarioC_sorted: "array_sort compareFn scenarioC_tokens = scenarioC_tokens"
  by (simp add: array_sort_def scenarioC_tokens_def compareFn_def)

text \<open>
  Claim C7, as amended. For the input \<^verbatim>\<open>if (x) {} else {}\<close> the output is IF_BEGIN
  with length 2 at the \<^verbatim>\<open>if\<close> position (column 0), an ELSE marker with length 1 at
  the start of the alternate statement (column 15, the brace that follows the
  \<^verbatim>\<open>else\<close> keyword), and IF_END with length 1 at the final closing brace (column 16).
\<close>

theorem scenarioC_output:
  assumes "fs filename = Some scenarioC_src"
    and "strict scenarioC_src = Inr scenarioC_ast"
  shows "doParse fs strict loose filename =
     ([], Inr
       [\<lparr>key = Some ''IF_BEGIN'', value_t = 8, line = 1, column = 0, length_t = 2\<rparr>,
        \<lparr>key = Some ''ELSE'', value_t = 10, line = 1, column = 15, length_t = 1\<rparr>,
        \<lparr>key = Some ''IF_END'', value_t = 9, line = 1, column = 16, length_t = 1\<rparr>])"
  using doParse_strict[where fs = fs and filename = filename and strict = strict, OF assms]
  by (simp add: scenarioC_emitted scenarioC_sorted) (simp add: scenarioC_tokens_def)

theorem scenarioC_output_witness:
  "single_file ''c.js'' scenarioC_src ''c.js'' = Some scenarioC_src \<and>
   parses_to scenarioC_src scenarioC_ast scenarioC_src = Inr scenarioC_ast \<and>
   doParse (single_file ''c.js'' scenarioC_src) (parses_to scenarioC_src scenarioC_ast) rejects
     ''c.js'' =
     ([], Inr
       [\<lparr>key = Some ''IF_BEGIN'', value_t = 8, line = 1, column = 0, length_t = 2\<rparr>,
        \<lparr>key = Some ''ELSE'', value_t = 10, line = 1, column = 15, length_t = 1\<rparr>,
        \<lparr>key = Some ''IF_END'', value_t = 9, line = 1, column = 16, length_t = 1\<rparr>])"
proof -
  have f: "single_file ''c.js'' scenarioC_src ''c.js'' = Some scenarioC_src"
    by (simp add: single_file_def)
  have p: "parses_to scenarioC_src scenarioC_ast scenarioC_src = Inr scenarioC_ast"
    by (simp add: parses_to_def)
  from scenarioC_output[where fs = "single_file ''c.js'' scenarioC_src"
      and filename = "''c.js''" and strict = "parses_to scenarioC_src scenarioC_ast", OF f p]
    f p show ?thesis by simp
qed

text \<open>
  The claim as it was stated puts the ELSE marker at the \<^verbatim>\<open>else\<close> position. The
  keyword is at column 10 of the text; the ELSE token, the second of the three, is at
  column 15, where the text has the opening brace of the alternate.
\<close>

theorem scenarioC_else_not_at_keyword:
  "take 4 (drop 10 scenarioC_src) = ''else'' \<and>
   take 1 (drop 15 scenarioC_src) = ''{'' \<and>
   map key (projr (snd (doParse (single_file ''c.js'' scenarioC_src)
      (parses_to scenarioC_src scenarioC_ast) rejects ''c.js''))) =
     [Some ''IF_BEGIN'', Some ''ELSE'', Some ''IF_END''] \<and>
   map column (projr (snd (doParse (single_file ''c.js'' scenarioC_src)
      (parses_to scenarioC_src scenarioC_ast) rejects ''c.js''))) = [0, 15, 16]"
proof -
  have f: "single_file ''c.js'' scenarioC_src ''c.js'' = Some scenarioC_src"
    by (simp add: single_file_def)
  have p: "parses_to scenarioC_src scenarioC_ast scenarioC_src = Inr scenarioC_ast"
    by (simp add: parses_to_def)
  have "doParse (single_file ''c.js'' scenarioC_src) (parses_to scenarioC_src scenarioC_ast)
      rejects ''c.js'' = ([], Inr scenarioC_tokens)"
    using doParse_strict[where fs = "single_file ''c.js'' scenarioC_src"
        and filename = "''c.js''" and strict = "parses_to scenarioC_src scenarioC_ast", OF f p]
    by (simp add: scenarioC_emitted scenarioC_sorted)
  then show ?thesis by (simp add: scenarioC_tokens_def scenarioC_src_def)
qed

section \<open>The vocabulary and the AMOUNT mode\<close>

text \<open>
  Claim C5, as amended. The vocabulary is a fixed enumeration of 43 token kinds with
  distinct names; their ids are the integers from 2 to 44 in order, so the ids 0 and 1
  are unused and ids start at 2; the module's own check of the reverse table holds; and
  the AMOUNT mode reports the kind count plus 1, which is 44.
\<close>

theorem vocabulary_size:
  "keys_length TOKENS = 43 \<and>
   distinct (map fst TOKENS) \<and>
   map snd TOKENS = [2..44] \<and>
   map_of TOKENS_REVERSE 0 = None \<and> map_of TOKENS_REVERSE 1 = None \<and>
   module_assert \<and>
   main fs strict loose (a0 # a1 # a2 # ''AMOUNT'' # rest) =
     ([], Inr (Amount (keys_length TOKENS + 1))) \<and>
   keys_length TOKENS + 1 = 44"
proof -
  have k: "keys_length TOKENS = 43" by (simp add: keys_length_def TOKENS_def)
  have d: "distinct (map fst TOKENS)" by (simp add: TOKENS_def)
  have u: "[2..44] = map snd TOKENS" by (simp add: TOKENS_def upto_rec1)
  have r: "map_of TOKENS_REVERSE 0 = None" "map_of TOKENS_REVERSE 1 = None"
    by (simp_all add: TOKENS_REVERSE_eq)
  have m: module_assert
    by (simp add: module_assert_def k) (simp add: keys_length_def TOKENS_REVERSE_eq)
  have a: "main fs strict loose (a0 # a1 # a2 # ''AMOUNT'' # rest) =
     ([], Inr (Amount (keys_length TOKENS + 1)))"
    by (simp add: main_def argv_at_def)
  from k d u r m a show ?thesis by simp
qed

text \<open>
  The claim as it was stated counts 32 kinds and lets the ids start at 1.
\<close>

theorem vocabulary_not_32_from_1:
  "keys_length TOKENS = 43 \<and> T ''FOR_BEGIN'' = Some 2 \<and> map_of TOKENS_REVERSE 1 = None"
  by (simp add: keys_length_def TOKENS_def T_def) (simp add: TOKENS_REVERSE_eq)

section \<open>Parsing: strict first, lenient second\<close>

text \<open>
  Claim C6. When the strict parse of a file's text fails, the lenient parser is tried
  on the same text before giving up, and its result is what \<^verbatim>\<open>parseToAst\<close> returns
  (the strict error is only written to the error stream); when the lenient parse
  fails too, its error is what \<^verbatim>\<open>doParse\<close> and the program end with, and no token
  list is produced. When the strict parse succeeds the lenient parser is not consulted.
\<close>

theorem strict_then_lenient:
  "(strict content = Inl e \<longrightarrow>
      parseToAst strict loose content =
        ([''Got parse error: '' @ error_string e], loose content)) \<and>
   (strict content = Inr ast \<longrightarrow> parseToAst strict loose content = ([], Inr ast)) \<and>
   (fs filename = Some content \<and> strict content = Inl e \<and> loose content = Inl e' \<longrightarrow>
      doParse fs strict loose filename = ([''Got parse error: '' @ error_string e], Inl e') \<and>
      main fs strict loose [a0, a1, filename] =
        ([''Got parse error: '' @ error_string e], Inl e'))"
  by (auto simp: parseToAst_def doParse_def main_def argv_at_def)

theorem strict_then_lenient_witness:
  "rejects scenarioA_src = Inl (SyntaxError ''Unexpected token'') \<and>
   parseToAst rejects (parses_to scenarioA_src scenarioA_ast) scenarioA_src =
     ([''Got parse error: SyntaxError: Unexpected token''], Inr scenarioA_ast) \<and>
   parses_to scenarioA_src scenarioA_ast scenarioA_src = Inr scenarioA_ast \<and>
   parseToAst (parses_to scenarioA_src scenarioA_ast) rejects scenarioA_src =
     ([], Inr scenarioA_ast) \<and>
   single_file ''a.js'' scenarioA_src ''a.js'' = Some scenarioA_src \<and>
   doParse (single_file ''a.js'' scenarioA_src) rejects rejects ''a.js'' =
     ([''Got parse error: SyntaxError: Unexpected token''],
      Inl (SyntaxError ''Unexpected token'')) \<and>
   main (single_file ''a.js'' scenarioA_src) rejects rejects [''node'', ''index.js'', ''a.js''] =
     ([''Got parse error: SyntaxError: Unexpected token''],
      Inl (SyntaxError ''Unexpected token''))"
proof -
  have r: "rejects scenarioA_src = Inl (SyntaxError ''Unexpected token'')"
    by (simp add: rejects_def)
  have p: "parses_to scenarioA_src scenarioA_ast scenarioA_src = Inr scenarioA_ast"
    by (simp add: parses_to_def)
  have f: "single_file ''a.js'' scenarioA_src ''a.js'' = Some scenarioA_src"
    by (simp add: single_file_def)
  from strict_then_lenient[of rejects scenarioA_src "SyntaxError ''Unexpected token''"
      "parses_to scenarioA_src scenarioA_ast" scenarioA_ast]
    strict_then_lenient[of "parses_to scenarioA_src scenarioA_ast" scenarioA_src _
      rejects scenarioA_ast]
    strict_then_lenient[of rejects scenarioA_src "SyntaxError ''Unexpected token''"
      rejects _ "single_file ''a.js'' scenarioA_src" "''a.js''"
      "SyntaxError ''Unexpected token''" "''node''" "''index.js''"]
    r p f
  show ?thesis by simp
qed

section \<open>Functions\<close>

lemma methodName_function:
  "t \<in> set function_types \<Longrightarrow> methodNameTable t = Some ''visitFunction''"
  by (auto simp: function_types_def methodName_other)

text \<open>
  Claim C10. Every function-like construct (function declaration, function expression,
  arrow function expression) emits FUNCTION_BEGIN at its start position with length 8,
  the character count of \<^verbatim>\<open>function\<close>, then the tokens of its children, then
  FUNCTION_END with length 1 at its close; an arrow function gets the same length 8
  although its text has no \<^verbatim>\<open>function\<close> keyword.
\<close>

theorem function_like_tokens:
  assumes "ntype n \<in> set function_types"
  shows "int (length ''function'') = 8 \<and>
     visitWithoutReset (NodePath (VObj n)) r =
      (case nloc n of
         None \<Rightarrow> Inl TypeError
       | Some l \<Rightarrow>
          (case visitChildren (NodePath (VObj n))
                  (r @ [\<lparr>key = Some ''FUNCTION_BEGIN'', value_t = 4,
                          line = pos_line (loc_start l),
                          column = pos_column (loc_start l), length_t = 8\<rparr>]) of
             Inl e \<Rightarrow> Inl e
           | Inr r' \<Rightarrow>
               Inr (r' @ [\<lparr>key = Some ''FUNCTION_END'', value_t = 5,
                            line = pos_line (loc_end l),
                            column = max (pos_column (loc_end l) - 1) 0,
                            length_t = 1\<rparr>])))"
proof -
  have "visitWithoutReset (NodePath (VObj n)) r =
      wrapped visitFunction visitChildren visitWithoutReset (NodePath (VObj n)) r"
    by (simp add: visitWithoutReset_VObj methodName_function[OF assms] invoke_simps)
  then show ?thesis
    by (simp add: wrapped_def visitFunction_def returning_def callback_def emit_def
        emitEnd_def T_simps key_simps value_or_def loc_of_def arg_nullish_def endsWith_def
        split: option.splits sum.splits)
qed

theorem function_like_tokens_witness:
  "ntype arrow_node \<in> set function_types \<and>
   int (length arrow_src) = 7 \<and>
   visitWithoutReset (NodePath (VObj arrow_node)) [] =
     Inr [\<lparr>key = Some ''FUNCTION_BEGIN'', value_t = 4, line = 1, column = 0, length_t = 8\<rparr>,
          \<lparr>key = Some ''FUNCTION_END'', value_t = 5, line = 1, column = 6, length_t = 1\<rparr>]"
proof -
  have t: "ntype arrow_node \<in> set function_types"
    by (simp add: arrow_node_def function_types_def)
  from function_like_tokens[OF t, of "[]"] t show ?thesis
    by (simp add: arrow_node_def arrow_src_def at1_def walk_simps methodName_other)
qed

section \<open>for-in and for-of\<close>


lemma emitEnd_keeps_traversed:
  "emitEnd tok a surplus s = Inr s' \<Longrightarrow> traversed s' = traversed s"
  by (auto dest!: emitEnd_Inr)

lemma callback_traversed: "callback w p s = Inr s' \<Longrightarrow> traversed s'"
  by (auto simp: callback_def split: sum.splits)

lemma forof_body_traversed:
  assumes "forof_body vi n s = Inr s'"
  shows "traversed s'"
proof -
  from assms obtain s1 s2 s3 s4 s5 where
    "callback vi (NodePath (get n ''body'')) s4 = Inr s5"
    "emitEnd (T ''FOR_END'') (APath (NodePath (VObj n))) [] s5 = Inr s'"
    by (auto simp: forof_body_def split: sum.splits)
  then show ?thesis
    using callback_traversed emitEnd_keeps_traversed by metis
qed

lemma bind_arg_Inr: "bind_arg (Inr x) f = f x"
  by (rule ext) (simp add: bind_arg_def)

lemma wrapped_forof:
  "wrapped visitForOfStatement tr vi (NodePath (VObj n)) r =
     (case forof_body vi n \<lparr>res = r, traversed = False\<rparr> of
        Inl e \<Rightarrow> Inl e
      | Inr s \<Rightarrow> Inr (res s))"
proof -
  have b: "visitForOfStatement tr vi (NodePath (VObj n)) (callback tr) (callback vi) =
      returning VUndefined (forof_body vi n)"
    by (simp add: visitForOfStatement_def forof_body_def pget_def member_def bind_arg_Inr)
  show ?thesis
    using forof_body_traversed[of vi n "\<lparr>res = r, traversed = False\<rparr>"]
    by (simp add: wrapped_def b returning_def split: sum.splits)
qed

lemma emit_path_retag:
  "emit tok (APath (NodePath (VObj (Node t' (nloc n) (nrange n) (nfields n))))) len =
   emit tok (APath (NodePath (VObj n))) len"
  by (rule ext) (simp add: emit_def value_or_def loc_of_def arg_nullish_def
      split: option.splits)

lemma emitEnd_path_retag:
  "emitEnd tok (APath (NodePath (VObj (Node t' (nloc n) (nrange n) (nfields n))))) sp =
   emitEnd tok (APath (NodePath (VObj n))) sp"
  by (rule ext) (simp add: emitEnd_def value_or_def loc_of_def arg_nullish_def
      split: option.splits)

lemma forof_body_retag:
  "forof_body vi (Node t' (nloc n) (nrange n) (nfields n)) = forof_body vi n"
  by (simp add: forof_body_def emit_path_retag emitEnd_path_retag get_def)

text \<open>
  Claim C9. For every for-in statement the emitted tokens are those the for-of rule
  produces on the same node: FOR_BEGIN with length 3 at the node's start, then the
  tokens of the visit of the left-hand binding, an ASSIGN token with length 1 at the
  binding's position, the tokens of the visits of the right-hand side and of the body,
  and FOR_END; a throw of any of these steps ends the visit. The for-in handler
  delegates to the (wrapped) for-of rule and the default traversal of the children is
  not run after it: nothing follows FOR_END. The same tokens come out when the node is
  a for-of statement.
\<close>

theorem forin_as_forof:
  assumes "ntype n = ''ForInStatement''"
  shows "visitWithoutReset (NodePath (VObj n)) r =
       wrapped visitForOfStatement visitChildren visitWithoutReset (NodePath (VObj n)) r \<and>
     visitWithoutReset (NodePath (VObj n)) r =
       (case block
               [emit (T ''FOR_BEGIN'') (APath (NodePath (VObj n))) 3,
                callback visitWithoutReset (NodePath (get n ''left'')),
                emit (T ''ASSIGN'') (ANode (get n ''left'')) 1,
                callback visitWithoutReset (NodePath (get n ''right'')),
                callback visitWithoutReset (NodePath (get n ''body'')),
                emitEnd (T ''FOR_END'') (APath (NodePath (VObj n))) []]
               \<lparr>res = r, traversed = False\<rparr> of
          Inl e \<Rightarrow> Inl e
        | Inr s \<Rightarrow> Inr (res s)) \<and>
     visitWithoutReset (NodePath (VObj n)) r =
       (case emit (T ''FOR_BEGIN'') (APath (NodePath (VObj n))) 3
               \<lparr>res = r, traversed = False\<rparr> of
          Inl e \<Rightarrow> Inl e
        | Inr s1 \<Rightarrow>
       (case visitWithoutReset (NodePath (get n ''left'')) (res s1) of
          Inl e \<Rightarrow> Inl e
        | Inr r2 \<Rightarrow>
       (case emit (T ''ASSIGN'') (ANode (get n ''left'')) 1
               \<lparr>res = r2, traversed = True\<rparr> of
          Inl e \<Rightarrow> Inl e
        | Inr s3 \<Rightarrow>
       (case visitWithoutReset (NodePath (get n ''right'')) (res s3) of
          Inl e \<Rightarrow> Inl e
        | Inr r4 \<Rightarrow>
       (case visitWithoutReset (NodePath (get n ''body'')) r4 of
          Inl e \<Rightarrow> Inl e
        | Inr r5 \<Rightarrow>
       (case emitEnd (T ''FOR_END'') (APath (NodePath (VObj n))) []
               \<lparr>res = r5, traversed = True\<rparr> of
          Inl e \<Rightarrow> Inl e
        | Inr s6 \<Rightarrow> Inr (res s6))))))) \<and>
     visitWithoutReset (NodePath (VObj n)) r =
       visitWithoutReset
         (NodePath (VObj (Node ''ForOfStatement'' (nloc n) (nrange n) (nfields n)))) r"
proof -
  let ?p = "NodePath (VObj n)"
  let ?w = "wrapped visitForOfStatement visitChildren visitWithoutReset"
  have "visitWithoutReset ?p r = wrapped visitForInStatement visitChildren visitWithoutReset ?p r"
    by (simp add: visitWithoutReset_VObj assms methodName_simps invoke_simps)
  also have "\<dots> = ?w ?p r"
    by (cases "?w ?p r") (simp_all add: wrapped_def[of visitForInStatement]
        visitForInStatement_def returning_def)
  finally have 1: "visitWithoutReset ?p r = ?w ?p r" .
  have 2: "?w ?p r =
      (case forof_body visitWithoutReset n \<lparr>res = r, traversed = False\<rparr> of
         Inl e \<Rightarrow> Inl e | Inr s \<Rightarrow> Inr (res s))"
    by (rule wrapped_forof)
  let ?n' = "Node ''ForOfStatement'' (nloc n) (nrange n) (nfields n)"
  have "visitWithoutReset (NodePath (VObj ?n')) r = ?w (NodePath (VObj ?n')) r"
    by (simp add: visitWithoutReset_VObj methodName_simps invoke_simps)
  also have "\<dots> = ?w ?p r"
    by (simp add: wrapped_forof forof_body_retag)
  finally have 3: "visitWithoutReset (NodePath (VObj ?n')) r = ?w ?p r" .
  have 4: "(case forof_body visitWithoutReset n \<lparr>res = r, traversed = False\<rparr> of
         Inl e \<Rightarrow> Inl e | Inr s \<Rightarrow> Inr (res s)) =
       (case emit (T ''FOR_BEGIN'') (APath (NodePath (VObj n))) 3
               \<lparr>res = r, traversed = False\<rparr> of
          Inl e \<Rightarrow> Inl e
        | Inr s1 \<Rightarrow>
       (case visitWithoutReset (NodePath (get n ''left'')) (res s1) of
          Inl e \<Rightarrow> Inl e
        | Inr r2 \<Rightarrow>
       (case emit (T ''ASSIGN'') (ANode (get n ''left'')) 1
               \<lparr>res = r2, traversed = True\<rparr> of
          Inl e \<Rightarrow> Inl e
        | Inr s3 \<Rightarrow>
       (case visitWithoutReset (NodePath (get n ''right'')) (res s3) of
          Inl e \<Rightarrow> Inl e
        | Inr r4 \<Rightarrow>
       (case visitWithoutReset (NodePath (get n ''body'')) r4 of
          Inl e \<Rightarrow> Inl e
        | Inr r5 \<Rightarrow>
       (case emitEnd (T ''FOR_END'') (APath (NodePath (VObj n))) []
               \<lparr>res = r5, traversed = True\<rparr> of
          Inl e \<Rightarrow> Inl e
        | Inr s6 \<Rightarrow> Inr (res s6)))))))"
  proof -
    have cb: "(case callback visitWithoutReset q s of Inl e \<Rightarrow> Inl e | Inr s' \<Rightarrow> g s') =
        (case visitWithoutReset q (res s) of
           Inl e \<Rightarrow> Inl e
         | Inr r' \<Rightarrow> g \<lparr>res = r', traversed = True\<rparr>)" for q s
      and g :: "state \<Rightarrow> error + token list"
      by (cases "visitWithoutReset q (res s)") (simp_all add: callback_def)
    have bl: "(case block (c # cs) s of Inl e \<Rightarrow> Inl e | Inr s' \<Rightarrow> Inr (res s')) =
        (case c s of
           Inl e \<Rightarrow> Inl e
         | Inr s1 \<Rightarrow> (case block cs s1 of Inl e \<Rightarrow> Inl e | Inr s' \<Rightarrow> Inr (res s')))"
      for c cs s
      by (cases "c s") simp_all
    have nil: "(case block [] s of Inl e \<Rightarrow> Inl e | Inr s' \<Rightarrow> Inr (res s')) = Inr (res s)"
      for s
      by simp
    show ?thesis
      unfolding forof_body_def
      apply (simp only: bl nil cb)
      apply (simp cong: sum.case_cong)
      done
  qed
  from 1 2 3 4 show ?thesis by (simp add: forof_body_def)
qed

theorem forin_as_forof_witness:
  "ntype forin_node = ''ForInStatement'' \<and>
   int (length forin_src) = 22 \<and>
   visitWithoutReset (NodePath (VObj forin_node)) [] =
     Inr [\<lparr>key = Some ''FOR_BEGIN'', value_t = 2, line = 1, column = 0, length_t = 3\<rparr>,
          \<lparr>key = Some ''APPLY'', value_t = 7, line = 1, column = 5, length_t = 1\<rparr>,
          \<lparr>key = Some ''ASSIGN'', value_t = 30, line = 1, column = 5, length_t = 1\<rparr>,
          \<lparr>key = Some ''APPLY'', value_t = 7, line = 1, column = 14, length_t = 1\<rparr>,
          \<lparr>key = Some ''APPLY'', value_t = 7, line = 1, column = 19, length_t = 1\<rparr>,
          \<lparr>key = Some ''FOR_END'', value_t = 3, line = 1, column = 21, length_t = 1\<rparr>] \<and>
   visitWithoutReset
     (NodePath (VObj (Node ''ForOfStatement'' (nloc forin_node) (nrange forin_node)
        (nfields forin_node)))) [] =
     Inr [\<lparr>key = Some ''FOR_BEGIN'', value_t = 2, line = 1, column = 0, length_t = 3\<rparr>,
          \<lparr>key = Some ''APPLY'', value_t = 7, line = 1, column = 5, length_t = 1\<rparr>,
          \<lparr>key = Some ''ASSIGN'', value_t = 30, line = 1, column = 5, length_t = 1\<rparr>,
          \<lparr>key = Some ''APPLY'', value_t = 7, line = 1, column = 14, length_t = 1\<rparr>,
          \<lparr>key = Some ''APPLY'', value_t = 7, line = 1, column = 19, length_t = 1\<rparr>,
          \<lparr>key = Some ''FOR_END'', value_t = 3, line = 1, column = 21, length_t = 1\<rparr>] \<and>
   visitChildren (NodePath (VObj forin_node)) [] =
     Inr [\<lparr>key = Some ''APPLY'', value_t = 7, line = 1, column = 5, length_t = 1\<rparr>,
          \<lparr>key = Some ''APPLY'', value_t = 7, line = 1, column = 14, length_t = 1\<rparr>,
          \<lparr>key = Some ''APPLY'', value_t = 7, line = 1, column = 19, length_t = 1\<rparr>]"
proof -
  let ?out = "[\<lparr>key = Some ''FOR_BEGIN'', value_t = 2, line = 1, column = 0, length_t = 3\<rparr>,
          \<lparr>key = Some ''APPLY'', value_t = 7, line = 1, column = 5, length_t = 1\<rparr>,
          \<lparr>key = Some ''ASSIGN'', value_t = 30, line = 1, column = 5, length_t = 1\<rparr>,
          \<lparr>key = Some ''APPLY'', value_t = 7, line = 1, column = 14, length_t = 1\<rparr>,
          \<lparr>key = Some ''APPLY'', value_t = 7, line = 1, column = 19, length_t = 1\<rparr>,
          \<lparr>key = Some ''FOR_END'', value_t = 3, line = 1, column = 21, length_t = 1\<rparr>]"
  have t: "ntype forin_node = ''ForInStatement''" by (simp add: forin_node_def)
  note c = forin_as_forof[OF t, of "[]"]
  have run: "visitWithoutReset (NodePath (VObj forin_node)) [] = Inr ?out"
    by (simp add: forin_node_def at1_def run_simps)
  have steps: "visitWithoutReset (NodePath (VObj forin_node)) [] = Inr ?out"
    apply (subst c[THEN conjunct2, THEN conjunct2, THEN conjunct1])
    apply (simp add: forin_node_def at1_def run_simps)
    done
  have forof: "visitWithoutReset
     (NodePath (VObj (Node ''ForOfStatement'' (nloc forin_node) (nrange forin_node)
        (nfields forin_node)))) [] = Inr ?out"
    by (simp only: c[THEN conjunct2, THEN conjunct2, THEN conjunct2, symmetric] run)
  have "visitChildren (NodePath (VObj forin_node)) [] =
     Inr [\<lparr>key = Some ''APPLY'', value_t = 7, line = 1, column = 5, length_t = 1\<rparr>,
          \<lparr>key = Some ''APPLY'', value_t = 7, line = 1, column = 14, length_t = 1\<rparr>,
          \<lparr>key = Some ''APPLY'', value_t = 7, line = 1, column = 19, length_t = 1\<rparr>]"
    by (simp add: forin_node_def at1_def run_simps)
  with t run steps forof show ?thesis by (simp add: forin_src_def)
qed

section \<open>What the emitting functions check\<close>







































end
